theory Spec2Isabelle
  imports Main "HOL-Library.AList"
begin

chapter \<open>The export generator of trio: \<open>trio/_tools/gen_exports.py\<close>\<close>

text \<open>
  The generator scans module files for methods decorated with \<open>_public\<close> and writes, for
  every such method, a module-level function that forwards to the method of the running
  context.  The first sections embed the program; the later ones state and prove its
  properties.
\<close>

section \<open>Python text\<close>

text \<open>
  A Python \<open>str\<close> is modelled as a HOL \<open>string\<close> whose characters are the code points
  below 256.  The functions of this section are the \<open>str\<close> methods and the
  \<open>textwrap\<close>, \<open>os.path\<close> and \<open>pathlib\<close> helpers that \<open>gen_exports.py\<close> calls.
\<close>

text \<open>\<open>sep.join(xs)\<close>\<close>

fun join :: "string \<Rightarrow> string list \<Rightarrow> string" where
  "join sep [] = []"
| "join sep [x] = x"
| "join sep (x # y # ys) = x @ sep @ join sep (y # ys)"

text \<open>\<open>s.startswith(p)\<close>, \<open>s.endswith(p)\<close> and \<open>sub in s\<close>\<close>

definition startswith :: "string \<Rightarrow> string \<Rightarrow> bool" where
  "startswith s p = (take (length p) s = p)"

definition endswith :: "string \<Rightarrow> string \<Rightarrow> bool" where
  "endswith s p = startswith (rev s) (rev p)"

fun str_in :: "string \<Rightarrow> string \<Rightarrow> bool" where
  "str_in sub [] = (sub = [])"
| "str_in sub (c # s) = (startswith (c # s) sub \<or> str_in sub s)"

text \<open>
  \<open>s.replace(old, new)\<close>: every occurrence of \<open>old\<close>, found from the left without
  overlaps, becomes \<open>new\<close>; an empty \<open>old\<close> matches before every character and at
  the end.
\<close>

fun replace_from :: "string \<Rightarrow> string \<Rightarrow> string \<Rightarrow> string" where
  "replace_from old new [] = []"
| "replace_from old new (c # s) =
     (if startswith (c # s) old
      then new @ replace_from old new (drop (length old - 1) s)
      else c # replace_from old new s)"

definition replace :: "string \<Rightarrow> string \<Rightarrow> string \<Rightarrow> string" where
  "replace s old new =
     (if old = [] then new @ concat (map (\<lambda>c. c # new) s) else replace_from old new s)"

text \<open>
  \<open>s.splitlines(True)\<close>: the lines of \<open>s\<close> with their line breaks kept.  The line
  boundaries below code point 256 are LF, VT, FF, CR, FS, GS, RS and NEL, and CR LF
  counts as one.  The first argument is the line read so far.
\<close>

definition linebreak :: "char \<Rightarrow> bool" where
  "linebreak c =
     (c \<in> set [CHR 0x0A, CHR 0x0B, CHR 0x0C, CHR 0x0D, CHR 0x1C, CHR 0x1D, CHR 0x1E, CHR 0x85])"

fun splitlines :: "string \<Rightarrow> string \<Rightarrow> string list" where
  "splitlines cur [] = (if cur = [] then [] else [cur])"
| "splitlines cur [c] = [cur @ [c]]"
| "splitlines cur (c # d # s) =
     (if c = CHR 0x0D \<and> d = CHR 0x0A then (cur @ [c, d]) # splitlines [] s
      else if linebreak c then (cur @ [c]) # splitlines [] (d # s)
      else splitlines (cur @ [c]) (d # s))"

text \<open>\<open>c.isspace()\<close> on the code points below 256.\<close>

definition isspace :: "char \<Rightarrow> bool" where
  "isspace c =
     (c \<in> set [CHR 0x09, CHR 0x0A, CHR 0x0B, CHR 0x0C, CHR 0x0D, CHR 0x1C, CHR 0x1D,
                CHR 0x1E, CHR 0x1F, CHR 0x20, CHR 0x85, CHR 0xA0])"

text \<open>
  \<open>textwrap.indent(text, prefix)\<close>: the prefix goes in front of every line that
  \<open>line.strip()\<close> leaves non-empty.
\<close>

definition indent :: "string \<Rightarrow> string \<Rightarrow> string" where
  "indent text_in prefix =
     concat (map (\<lambda>line. if list_ex (\<lambda>c. \<not> isspace c) line then prefix @ line else line)
                 (splitlines [] text_in))"

text \<open>
  \<open>os.path.split\<close> and \<open>os.path.join\<close> with one component (\<open>posixpath\<close>), and
  \<open>pathlib\<close>'s \<open>stem\<close>.  A path is the string of a normalised \<open>Path\<close> that names a
  file, so its name is what follows the last separator.
\<close>

definition path_tail :: "string \<Rightarrow> string" where
  "path_tail p = rev (takeWhile (\<lambda>c. c \<noteq> CHR ''/'') (rev p))"

definition path_split :: "string \<Rightarrow> string \<times> string" where
  "path_split p =
     (let tail = path_tail p;
          head = take (length p - length tail) p;
          head = (if head \<noteq> [] \<and> head \<noteq> replicate (length head) (CHR ''/'')
                  then rev (dropWhile (\<lambda>c. c = CHR ''/'') (rev head)) else head)
      in (head, tail))"

definition path_join :: "string \<Rightarrow> string \<Rightarrow> string" where
  "path_join a b =
     (if startswith b ''/'' then b
      else if a = [] \<or> endswith a ''/'' then a @ b
      else a @ ''/'' @ b)"

definition stem :: "string \<Rightarrow> string" where
  "stem p =
     (let name = path_tail p;
          after_dot = takeWhile (\<lambda>c. c \<noteq> CHR ''.'') (rev name);
          i = length name - length after_dot - 1
      in if CHR ''.'' \<in> set name \<and> 0 < i \<and> i < length name - 1 then take i name else name)"

section \<open>The syntax tree\<close>

text \<open>
  The node classes of Python's \<open>ast\<close> module that the generator reads.  Expression
  nodes never hold statements.  \<open>OtherExpr\<close> and \<open>OtherStmt\<close> stand for the classes the
  generator does not look into, with the class name and the child nodes in field order
  (for a statement: its expressions, then the statements nested in it).
\<close>

datatype pyconst = Str string | NonStr string

datatype expr =
    Name (name_id: string)
  | Constant pyconst
  | OtherExpr string "expr list"

record arg =
  arg :: string
  annotation :: "expr option"

record arguments =
  posonlyargs :: "arg list"
  args :: "arg list"
  vararg :: "arg option"
  kwonlyargs :: "arg list"
  kw_defaults :: "expr option list"
  kwarg :: "arg option"
  defaults :: "expr list"

datatype stmt =
    FunctionDef (name: string) (args: arguments) (body: "stmt list")
      (decorator_list: "expr list") (returns: "expr option")
  | AsyncFunctionDef (name: string) (args: arguments) (body: "stmt list")
      (decorator_list: "expr list") (returns: "expr option")
  | ClassDef (name: string) (bases: "expr list") (body: "stmt list")
      (decorator_list: "expr list")
  | Expr (expr_value: expr)
  | OtherStmt string "expr list" "stmt list"

text \<open>\<open>ast.AST\<close>: any node of a tree.\<close>

datatype AST =
    Module "stmt list"
  | Stmt stmt
  | Expression expr
  | Arguments arguments
  | Arg arg

section \<open>The marker scanner\<close>

fun is_function :: "AST \<Rightarrow> bool" where
  "is_function (Stmt (FunctionDef n a b d r)) = True"
| "is_function (Stmt (AsyncFunctionDef n a b d r)) = True"
| "is_function node = False"

fun is_name :: "string \<Rightarrow> expr \<Rightarrow> bool" where
  "is_name s (Name i) = (i = s)"
| "is_name s e = False"

text \<open>\<open>is_public\<close>: the node is a function and one of its decorators is the name \<open>_public\<close>.\<close>

fun is_public :: "AST \<Rightarrow> bool" where
  "is_public (Stmt m) =
     (if is_function (Stmt m) then list_ex (is_name ''_public'') (decorator_list m) else False)"
| "is_public node = False"

text \<open>
  \<open>ast.iter_child_nodes\<close>: the fields of a node that are nodes, and the items of its
  fields that are lists of nodes, in the order of the class's fields.
\<close>

definition opt_nodes :: "('a \<Rightarrow> AST) \<Rightarrow> 'a option \<Rightarrow> AST list" where
  "opt_nodes f x = (case x of None \<Rightarrow> [] | Some y \<Rightarrow> [f y])"

fun iter_child_nodes :: "AST \<Rightarrow> AST list" where
  "iter_child_nodes (Module b) = map Stmt b"
| "iter_child_nodes (Stmt (FunctionDef n a b d r)) =
     Arguments a # map Stmt b @ map Expression d @ opt_nodes Expression r"
| "iter_child_nodes (Stmt (AsyncFunctionDef n a b d r)) =
     Arguments a # map Stmt b @ map Expression d @ opt_nodes Expression r"
| "iter_child_nodes (Stmt (ClassDef n bs b d)) =
     map Expression bs @ map Stmt b @ map Expression d"
| "iter_child_nodes (Stmt (Expr e)) = [Expression e]"
| "iter_child_nodes (Stmt (OtherStmt c es ss)) = map Expression es @ map Stmt ss"
| "iter_child_nodes (Expression (OtherExpr c es)) = map Expression es"
| "iter_child_nodes (Expression e) = []"
| "iter_child_nodes (Arguments a) =
     map Arg (posonlyargs a) @ map Arg (arguments.args a) @ opt_nodes Arg (vararg a)
     @ map Arg (kwonlyargs a) @ concat (map (opt_nodes Expression) (kw_defaults a))
     @ opt_nodes Arg (kwarg a) @ map Expression (defaults a)"
| "iter_child_nodes (Arg a) = opt_nodes Expression (annotation a)"

text \<open>The number of nodes of a tree: what the queue of \<open>ast.walk\<close> still has to yield.\<close>

fun expr_nodes :: "expr \<Rightarrow> nat" where
  "expr_nodes (OtherExpr c es) = Suc (sum_list (map expr_nodes es))"
| "expr_nodes e = 1"

definition opt_count :: "('a \<Rightarrow> nat) \<Rightarrow> 'a option \<Rightarrow> nat" where
  "opt_count f x = (case x of None \<Rightarrow> 0 | Some y \<Rightarrow> f y)"

definition arg_nodes :: "arg \<Rightarrow> nat" where
  "arg_nodes a = Suc (opt_count expr_nodes (annotation a))"

definition arguments_nodes :: "arguments \<Rightarrow> nat" where
  "arguments_nodes a =
     Suc (sum_list (map arg_nodes (posonlyargs a)) + sum_list (map arg_nodes (arguments.args a))
          + opt_count arg_nodes (vararg a) + sum_list (map arg_nodes (kwonlyargs a))
          + sum_list (map (opt_count expr_nodes) (kw_defaults a))
          + opt_count arg_nodes (kwarg a) + sum_list (map expr_nodes (defaults a)))"

fun stmt_nodes :: "stmt \<Rightarrow> nat" where
  "stmt_nodes (FunctionDef n a b d r) =
     Suc (arguments_nodes a + sum_list (map stmt_nodes b) + sum_list (map expr_nodes d)
          + opt_count expr_nodes r)"
| "stmt_nodes (AsyncFunctionDef n a b d r) =
     Suc (arguments_nodes a + sum_list (map stmt_nodes b) + sum_list (map expr_nodes d)
          + opt_count expr_nodes r)"
| "stmt_nodes (ClassDef n bs b d) =
     Suc (sum_list (map expr_nodes bs) + sum_list (map stmt_nodes b)
          + sum_list (map expr_nodes d))"
| "stmt_nodes (Expr e) = Suc (expr_nodes e)"
| "stmt_nodes (OtherStmt c es ss) =
     Suc (sum_list (map expr_nodes es) + sum_list (map stmt_nodes ss))"

fun ast_nodes :: "AST \<Rightarrow> nat" where
  "ast_nodes (Module b) = Suc (sum_list (map stmt_nodes b))"
| "ast_nodes (Stmt s) = stmt_nodes s"
| "ast_nodes (Expression e) = expr_nodes e"
| "ast_nodes (Arguments a) = arguments_nodes a"
| "ast_nodes (Arg a) = arg_nodes a"

lemma sum_opt_nodes:
  "sum_list (map ast_nodes (opt_nodes f x)) = opt_count (\<lambda>y. ast_nodes (f y)) x"
  by (cases x) (simp_all add: opt_nodes_def opt_count_def)

lemma sum_concat_opt_nodes:
  "sum_list (map ast_nodes (concat (map (opt_nodes f) xs)))
     = sum_list (map (opt_count (\<lambda>y. ast_nodes (f y))) xs)"
  by (induction xs) (simp_all add: sum_opt_nodes)

lemma ast_nodes_children:
  "ast_nodes node = Suc (sum_list (map ast_nodes (iter_child_nodes node)))"
proof (cases node)
  case (Module b)
  then show ?thesis by (simp add: comp_def)
next
  case (Stmt s)
  then show ?thesis
    by (cases s) (simp_all add: comp_def sum_opt_nodes)
next
  case (Expression e)
  then show ?thesis by (cases e) (simp_all add: comp_def)
next
  case (Arguments a)
  then show ?thesis
    by (simp add: comp_def sum_opt_nodes sum_concat_opt_nodes arguments_nodes_def)
next
  case (Arg a)
  then show ?thesis by (simp add: sum_opt_nodes arg_nodes_def)
qed

text \<open>
  \<open>ast.walk\<close>: a queue that starts with the root; the node at its front is taken off,
  its children go to the back, and the node is yielded.
\<close>

function walk_todo :: "AST list \<Rightarrow> AST list" where
  "walk_todo [] = []"
| "walk_todo (node # todo) = node # walk_todo (todo @ iter_child_nodes node)"
  by pat_completeness auto
termination
  by (relation "measure (\<lambda>todo. sum_list (map ast_nodes todo))")
     (simp_all add: ast_nodes_children)

definition walk :: "AST \<Rightarrow> AST list" where
  "walk node = walk_todo [node]"

definition get_public_methods :: "AST \<Rightarrow> AST list" where
  "get_public_methods tree = filter is_public (walk tree)"

section \<open>The signature transformer\<close>

text \<open>
  \<open>create_passthrough_args\<close> appends to \<open>call_args\<close> in four steps and joins the
  result.
\<close>

definition create_passthrough_args :: "stmt \<Rightarrow> string" where
  "create_passthrough_args funcdef =
     (let call_args = [];
          call_args = fold (\<lambda>a acc. acc @ [arg a]) (arguments.args (stmt.args funcdef)) call_args;
          call_args = (case vararg (stmt.args funcdef) of
                         Some v \<Rightarrow> call_args @ [''*'' @ arg v] | None \<Rightarrow> call_args);
          call_args = fold (\<lambda>a acc. acc @ [arg a @ ''='' @ arg a])
                           (kwonlyargs (stmt.args funcdef)) call_args;
          call_args = (case kwarg (stmt.args funcdef) of
                         Some k \<Rightarrow> call_args @ [''**'' @ arg k] | None \<Rightarrow> call_args)
      in ''('' @ join '', '' call_args @ '')'')"

section \<open>The wrapper synthesizer\<close>

definition PREFIX :: string where
  "PREFIX = ''_generated''"

definition HEADER :: string where
  "HEADER =
     ''# ***********************************************************\<newline>'' @
     ''# ******* WARNING: AUTOGENERATED! ALL EDITS WILL BE LOST ******\<newline>'' @
     ''# *************************************************************\<newline>'' @
     ''# Don't lint this file, generation will not format this too nicely.\<newline>'' @
     ''# isort: skip_file\<newline>'' @
     ''# fmt: off\<newline>'' @
     ''from __future__ import annotations\<newline>'' @
     ''\<newline>'' @
     ''from ._ki import LOCALS_KEY_KI_PROTECTION_ENABLED\<newline>'' @
     ''from ._run import GLOBAL_RUN_CONTEXT\<newline>''"

definition FOOTER :: string where
  "FOOTER = ''# fmt: on\<newline>''"

text \<open>\<open>TEMPLATE.format(a, b, c)\<close>: the three holes of \<open>TEMPLATE\<close> filled in order.\<close>

definition TEMPLATE_format :: "string \<Rightarrow> string \<Rightarrow> string \<Rightarrow> string" where
  \<open>TEMPLATE_format a b c =
     ''locals()[LOCALS_KEY_KI_PROTECTION_ENABLED] = True\<newline>'' @
     ''try:\<newline>'' @
     ''    return'' @ a @ ''GLOBAL_RUN_CONTEXT.'' @ b @ ''.'' @ c @ ''\<newline>'' @
     ''except AttributeError:\<newline>'' @
     ''    raise RuntimeError("must be called from async context")\<newline>''\<close>

text \<open>The class \<open>File\<close>; \<open>path\<close> is the string of its \<open>Path\<close>.\<close>

record File =
  path :: string
  modname :: string
  platform :: string
  imports_text :: string

text \<open>What the generator can raise.\<close>

datatype error =
    AssertionError
  | IndexError
  | AttributeError
  | FileNotFoundError
  | SyntaxError
  | SystemExit nat

text \<open>Assignments to the fields of a function node.\<close>

fun set_args :: "arguments \<Rightarrow> stmt \<Rightarrow> stmt" where
  "set_args a' (FunctionDef n a b d r) = FunctionDef n a' b d r"
| "set_args a' (AsyncFunctionDef n a b d r) = AsyncFunctionDef n a' b d r"
| "set_args a' s = s"

fun set_decorator_list :: "expr list \<Rightarrow> stmt \<Rightarrow> stmt" where
  "set_decorator_list d' (FunctionDef n a b d r) = FunctionDef n a b d' r"
| "set_decorator_list d' (AsyncFunctionDef n a b d r) = AsyncFunctionDef n a b d' r"
| "set_decorator_list d' s = s"

fun set_body :: "stmt list \<Rightarrow> stmt \<Rightarrow> stmt" where
  "set_body b' (FunctionDef n a b d r) = FunctionDef n a b' d r"
| "set_body b' (AsyncFunctionDef n a b d r) = AsyncFunctionDef n a b' d r"
| "set_body b' s = s"

fun is_async :: "stmt \<Rightarrow> bool" where
  "is_async (AsyncFunctionDef n a b d r) = True"
| "is_async s = False"

text \<open>
  \<open>ast.get_docstring\<close> of a function node: the text of the first statement of the body
  when that is an expression statement holding a string constant.  The generator only
  tests the result against \<open>None\<close>, so the cleaning of the text is left out.
\<close>

fun docstring_of :: "stmt list \<Rightarrow> string option" where
  "docstring_of (Expr (Constant (Str s)) # rest) = Some s"
| "docstring_of b = None"

definition get_docstring :: "stmt \<Rightarrow> string option" where
  "get_docstring node = docstring_of (body node)"

text \<open>
  The body of the loop of \<open>gen_public_wrappers_source\<close> for one yielded node.  It changes
  the node in place, so it returns the node as it leaves it, with the snippet.
  \<open>to_source\<close> is \<open>astor.to_source\<close> with four spaces of indentation.
\<close>

definition gen_snippet :: "(stmt \<Rightarrow> string) \<Rightarrow> File \<Rightarrow> AST \<Rightarrow> error + stmt \<times> string" where
  \<open>gen_snippet to_source file node =
     (case node of
        Stmt method \<Rightarrow>
          if \<not> is_function node then Inl AttributeError
          else (case arguments.args (stmt.args method) of
            [] \<Rightarrow> Inl IndexError
          | a0 # rest \<Rightarrow>
              if arg a0 \<noteq> ''self'' then Inl AssertionError
              else
                let method = set_args ((stmt.args method)\<lparr>args := rest\<rparr>) method;
                    is_cm = list_ex (is_name ''contextmanager'') (decorator_list method);
                    method = set_decorator_list [] method;
                    new_args = create_passthrough_args method;
                    method = (if get_docstring method = None then set_body [] method
                              else set_body (take 1 (body method)) method);
                    func = to_source method;
                    func = (if is_cm then replace func ''->Iterator'' ''->ContextManager''
                            else func);
                    func = (if stem (path file) = ''_run'' \<and> startswith func ''def reschedule''
                            then replace func ''None:\<newline>''
                                   ''None:  # type: ignore[has-type]\<newline>''
                            else func);
                    template = TEMPLATE_format (if is_async method then '' await '' else '' '')
                                 (modname file) (name method @ new_args);
                    snippet = func @ indent template ''    ''
                in Inr (method, snippet))
      | _ \<Rightarrow> Inl AttributeError)\<close>

text \<open>The header of a generated file.\<close>

definition file_header :: "File \<Rightarrow> string" where
  \<open>file_header file =
     (let header = [HEADER];
          header = (if imports_text file \<noteq> [] then header @ [imports_text file] else header);
          header =
            (if platform file \<noteq> [] then
               (let header = (if \<not> str_in ''TYPE_CHECKING'' (imports_text file)
                              then header @ [''from typing import TYPE_CHECKING\<newline>'']
                              else header);
                    header = (if \<not> str_in ''import sys'' (imports_text file)
                              then header @ [''import sys\<newline>''] else header)
                in header @ [''\<newline>assert not TYPE_CHECKING or sys.platform=="''
                              @ platform file @ ''"\<newline>''])
             else header)
      in concat header)\<close>

text \<open>The loop over a list of yielded nodes: the first error ends it.\<close>

fun gen_snippets :: "(stmt \<Rightarrow> string) \<Rightarrow> File \<Rightarrow> AST list \<Rightarrow> error + string list" where
  "gen_snippets to_source file [] = Inr []"
| "gen_snippets to_source file (node # nodes) =
     (case gen_snippet to_source file node of
        Inl e \<Rightarrow> Inl e
      | Inr (method, snippet) \<Rightarrow>
          (case gen_snippets to_source file nodes of
             Inl e \<Rightarrow> Inl e
           | Inr snippets \<Rightarrow> Inr (snippet # snippets)))"

text \<open>
  What the loop body leaves of the parameters of the node it was given, and the size of
  that.
\<close>

lemma gen_snippet_args:
  assumes "gen_snippet to_source file node = Inr (method, snippet)"
  shows "\<exists>m a0. node = Stmt m \<and> is_function node \<and> arguments.args (stmt.args m) = a0 # arguments.args (stmt.args method)
     \<and> stmt.args method = (stmt.args m)\<lparr>args := tl (arguments.args (stmt.args m))\<rparr>"
proof (cases node)
  case (Stmt m)
  with assms show ?thesis
    by (cases m) (auto simp: gen_snippet_def Let_def split: list.splits if_splits)
qed (use assms in \<open>simp_all add: gen_snippet_def\<close>)

lemma arguments_nodes_tl:
  "arguments_nodes (a\<lparr>args := tl (arguments.args a)\<rparr>) \<le> arguments_nodes a"
  by (cases "arguments.args a") (simp_all add: arguments_nodes_def)

lemma children_function:
  "is_function (Stmt m) \<Longrightarrow> iter_child_nodes (Stmt m) = Arguments (stmt.args m) # tl (iter_child_nodes (Stmt m))"
  by (cases m) simp_all

text \<open>
  The loop of \<open>gen_public_wrappers_source\<close> over \<open>get_public_methods(source)\<close>.  The
  scanner is a generator, so the loop body runs between two steps of \<open>ast.walk\<close>: when
  a node is yielded its children are in the queue already, and the loop body then
  changes the yielded node in place.  The queue holds the children as objects; the one
  child that the loop body changes is the node's \<open>arguments\<close>, which the walk therefore
  reaches as the loop body left it.  The argument is the queue of the walk.
\<close>

function gen_loop :: "(stmt \<Rightarrow> string) \<Rightarrow> File \<Rightarrow> AST list \<Rightarrow> error + string list" where
  "gen_loop to_source file [] = Inr []"
| "gen_loop to_source file (node # todo) =
     (if is_public node then
        (case gen_snippet to_source file node of
           Inl e \<Rightarrow> Inl e
         | Inr (method, snippet) \<Rightarrow>
             (case gen_loop to_source file
                     (todo @ Arguments (stmt.args method) # tl (iter_child_nodes node)) of
                Inl e \<Rightarrow> Inl e
              | Inr snippets \<Rightarrow> Inr (snippet # snippets)))
      else gen_loop to_source file (todo @ iter_child_nodes node))"
  by pat_completeness auto
termination
proof (relation "measure (\<lambda>(to_source, file, todo). sum_list (map ast_nodes todo))", goal_cases)
  case 1
  show ?case by simp
next
  case (2 to_source f node todo x m' s)
  then have g: "gen_snippet to_source f node = Inr (m', s)" by simp
  from gen_snippet_args[OF g] obtain m where
    m: "node = Stmt m" "is_function node"
       "stmt.args m' = (stmt.args m)\<lparr>args := tl (arguments.args (stmt.args m))\<rparr>"
    by blast
  have "ast_nodes (Arguments (stmt.args m')) \<le> ast_nodes (Arguments (stmt.args m))"
    using m(3) arguments_nodes_tl by simp
  moreover obtain rest where r: "iter_child_nodes node = Arguments (stmt.args m) # rest"
    using children_function[of m] m(1,2) by blast
  then have "ast_nodes node = Suc (ast_nodes (Arguments (stmt.args m))
      + sum_list (map ast_nodes rest))"
    using ast_nodes_children[of node] by simp
  ultimately show ?case using r by simp
next
  case (3 to_source f node todo)
  then show ?case by (simp add: ast_nodes_children)
qed

text \<open>\<open>astor.code_to_ast.parse_file\<close>: the text of the file, parsed.\<close>

definition parse_file :: "(string \<Rightarrow> AST option) \<Rightarrow> (string \<rightharpoonup> string) \<Rightarrow> string \<Rightarrow> error + AST" where
  "parse_file parse disk p =
     (case disk p of
        None \<Rightarrow> Inl FileNotFoundError
      | Some source_text \<Rightarrow>
          (case parse source_text of None \<Rightarrow> Inl SyntaxError | Some tree \<Rightarrow> Inr tree))"

text \<open>
  \<open>gen_public_wrappers_source\<close>.  Its environment is explicit: \<open>to_source\<close> and \<open>parse\<close>
  are the two library functions, \<open>disk\<close> maps the path of a file to its text.
\<close>

definition gen_public_wrappers_source ::
  "(stmt \<Rightarrow> string) \<Rightarrow> (string \<Rightarrow> AST option) \<Rightarrow> (string \<rightharpoonup> string) \<Rightarrow> File \<Rightarrow> error + string" where
  "gen_public_wrappers_source to_source parse disk file =
     (let generated = [file_header file] in
      case parse_file parse disk (path file) of
        Inl e \<Rightarrow> Inl e
      | Inr source \<Rightarrow>
          (case gen_loop to_source file [source] of
             Inl e \<Rightarrow> Inl e
           | Inr snippets \<Rightarrow> Inr (join ''\<newline>\<newline>'' (generated @ snippets @ [FOOTER]))))"

section \<open>The reconciliation driver\<close>

text \<open>What a run can change: the files on disk and the lines printed.\<close>

record world =
  disk :: "string \<rightharpoonup> string"
  stdout :: "string list"

definition print_line :: "string \<Rightarrow> world \<Rightarrow> world" where
  "print_line s w = w\<lparr>stdout := stdout w @ [s]\<rparr>"

text \<open>\<open>new_files\<close> is a \<open>dict\<close>: an association list in insertion order.\<close>

fun matches_disk_files :: "(string \<times> string) list \<Rightarrow> (string \<rightharpoonup> string) \<Rightarrow> bool" where
  "matches_disk_files [] d = True"
| "matches_disk_files ((new_path, new_source) # new_files) d =
     (case d new_path of
        None \<Rightarrow> False
      | Some old_source \<Rightarrow>
          if old_source \<noteq> new_source then False else matches_disk_files new_files d)"

text \<open>The first loop of \<open>process\<close>: it fills \<open>new_files\<close>.\<close>

fun scan_files ::
  "(stmt \<Rightarrow> string) \<Rightarrow> (string \<Rightarrow> AST option) \<Rightarrow> File list \<Rightarrow> (string \<times> string) list \<Rightarrow> world
     \<Rightarrow> (error + (string \<times> string) list) \<times> world" where
  "scan_files to_source parse [] new_files w = (Inr new_files, w)"
| "scan_files to_source parse (file # files) new_files w =
     (let w = print_line (''Scanning: '' @ path file) w in
      case gen_public_wrappers_source to_source parse (disk w) file of
        Inl e \<Rightarrow> (Inl e, w)
      | Inr new_source \<Rightarrow>
          (let (dirname, basename) = path_split (path file);
               new_path = path_join dirname (PREFIX @ basename)
           in scan_files to_source parse files (AList.update new_path new_source new_files) w))"

definition write_file :: "string \<times> string \<Rightarrow> world \<Rightarrow> world" where
  "write_file item w = w\<lparr>disk := (disk w)(fst item \<mapsto> snd item)\<rparr>"

text \<open>
  \<open>process\<close>: the result is \<open>Inl\<close> of what was raised (\<open>sys.exit(1)\<close> raises
  \<open>SystemExit 1\<close>), with the world as the run left it.
\<close>

definition process ::
  "(stmt \<Rightarrow> string) \<Rightarrow> (string \<Rightarrow> AST option) \<Rightarrow> File list \<Rightarrow> bool \<Rightarrow> world
     \<Rightarrow> (error + unit) \<times> world" where
  "process to_source parse files do_test w =
     (case scan_files to_source parse files [] w of
        (Inl e, w) \<Rightarrow> (Inl e, w)
      | (Inr new_files, w) \<Rightarrow>
          if do_test then
            (if \<not> matches_disk_files new_files (disk w)
             then (Inl (SystemExit 1),
                   print_line ''Generated sources are outdated. Please regenerate.'' w)
             else (Inr (), print_line ''Generated sources are up to date.'' w))
          else (Inr (), print_line ''Regenerated sources successfully.''
                          (fold write_file new_files w)))"

section \<open>Notions used in the properties\<close>

text \<open>
  The nodes that can hold statements.  The children of every other node are expressions,
  parameters and annotations only.
\<close>

fun stmt_like :: "AST \<Rightarrow> bool" where
  "stmt_like (Module b) = True"
| "stmt_like (Stmt s) = True"
| "stmt_like node = False"

text \<open>
  The children of the nodes of a list, and the nodes \<open>d\<close> levels below the root of a
  tree, from left to right.
\<close>

definition next_level :: "AST list \<Rightarrow> AST list" where
  "next_level q = concat (map iter_child_nodes q)"

definition level :: "nat \<Rightarrow> AST \<Rightarrow> AST list" where
  "level d tree = (next_level ^^ d) [tree]"

text \<open>
  The depth-first traversal of a tree, every node with its depth: a node comes before its
  children and the children come in field order, which for statements is the order of the
  source text.
\<close>

lemma child_smaller:
  "c \<in> set (iter_child_nodes node) \<Longrightarrow> ast_nodes c < ast_nodes node"
  using ast_nodes_children[of node] member_le_sum_list[of "ast_nodes c" "map ast_nodes (iter_child_nodes node)"]
  by force

function depth_first_at :: "nat \<Rightarrow> AST \<Rightarrow> (nat \<times> AST) list" where
  "depth_first_at k node =
     (k, node) # concat (map (depth_first_at (Suc k)) (iter_child_nodes node))"
  by pat_completeness auto
termination
  by (relation "measure (\<lambda>(k, node). ast_nodes node)") (simp_all add: child_smaller)

declare depth_first_at.simps [simp del]

definition depth_first :: "AST \<Rightarrow> AST list" where
  "depth_first tree = map snd (depth_first_at 0 tree)"

text \<open>A text without a line boundary, and the parameters that a forwarding call names.\<close>

definition one_line :: "string \<Rightarrow> bool" where
  "one_line s = list_all (\<lambda>c. \<not> linebreak c) s"

definition params :: "stmt \<Rightarrow> arg list" where
  "params m =
     arguments.args (stmt.args m)
     @ (case vararg (stmt.args m) of None \<Rightarrow> [] | Some v \<Rightarrow> [v])
     @ kwonlyargs (stmt.args m)
     @ (case kwarg (stmt.args m) of None \<Rightarrow> [] | Some k \<Rightarrow> [k])"

text \<open>
  The delegation pattern as it stands in a generated file, after the definition line and
  the docstring of a generated function.
\<close>

definition delegation_pattern :: "bool \<Rightarrow> string \<Rightarrow> string \<Rightarrow> string" where
  \<open>delegation_pattern async context call =
     ''    locals()[LOCALS_KEY_KI_PROTECTION_ENABLED] = True\<newline>'' @
     ''    try:\<newline>'' @
     ''        return'' @ (if async then '' await '' else '' '')
        @ ''GLOBAL_RUN_CONTEXT.'' @ context @ ''.'' @ call @ ''\<newline>'' @
     ''    except AttributeError:\<newline>'' @
     ''        raise RuntimeError("must be called from async context")\<newline>''\<close>

text \<open>The output path that \<open>process\<close> derives for a file.\<close>

definition output_path :: "File \<Rightarrow> string" where
  "output_path f = path_join (fst (path_split (path f))) (PREFIX @ snd (path_split (path f)))"

section \<open>Example inputs\<close>

text \<open>The parameters \<open>(a, b, *rest, c=1, **kw)\<close>.\<close>

definition example_args :: arguments where
  "example_args =
     \<lparr>posonlyargs = [],
      args = [\<lparr>arg = ''a'', annotation = None\<rparr>, \<lparr>arg = ''b'', annotation = None\<rparr>],
      vararg = Some \<lparr>arg = ''rest'', annotation = None\<rparr>,
      kwonlyargs = [\<lparr>arg = ''c'', annotation = None\<rparr>],
      kw_defaults = [Some (Constant (NonStr ''1''))],
      kwarg = Some \<lparr>arg = ''kw'', annotation = None\<rparr>,
      defaults = []\<rparr>"

text \<open>
  The method \<open>async def f(self, x, *, y=2)\<close> with a docstring, a statement after it
  and the marker; the node that is left of it; a renderer that prints the definition line
  and the docstring of that node.
\<close>

definition self_arg :: arg where
  "self_arg = \<lparr>arg = ''self'', annotation = None\<rparr>"

definition example_file :: File where
  "example_file =
     \<lparr>path = ''trio/_core/_run.py'', modname = ''runner'', platform = [], imports_text = []\<rparr>"

definition example_method :: stmt where
  "example_method =
     AsyncFunctionDef ''f''
       \<lparr>posonlyargs = [],
        args = [self_arg, \<lparr>arg = ''x'', annotation = None\<rparr>],
        vararg = None,
        kwonlyargs = [\<lparr>arg = ''y'', annotation = None\<rparr>],
        kw_defaults = [Some (Constant (NonStr ''2''))],
        kwarg = None,
        defaults = []\<rparr>
       [Expr (Constant (Str ''doc'')), OtherStmt ''Return'' [Name ''x''] []]
       [Name ''_public'']
       None"

definition example_stripped :: stmt where
  "example_stripped =
     AsyncFunctionDef ''f''
       \<lparr>posonlyargs = [],
        args = [\<lparr>arg = ''x'', annotation = None\<rparr>],
        vararg = None,
        kwonlyargs = [\<lparr>arg = ''y'', annotation = None\<rparr>],
        kw_defaults = [Some (Constant (NonStr ''2''))],
        kwarg = None,
        defaults = []\<rparr>
       [Expr (Constant (Str ''doc''))]
       []
       None"

definition example_to_source :: "stmt \<Rightarrow> string" where
  \<open>example_to_source m = ''async def '' @ name m @ ''(x, *, y=2):\<newline>    """doc"""\<newline>''\<close>

text \<open>
  Marked methods without parameters and with a first parameter that is not \<open>self\<close>, a
  parser that yields a class with given methods, and a disk that holds the input file.
\<close>

definition no_args :: arguments where
  "no_args = \<lparr>posonlyargs = [], args = [], vararg = None, kwonlyargs = [], kw_defaults = [],
              kwarg = None, defaults = []\<rparr>"

definition example_no_params :: stmt where
  "example_no_params = FunctionDef ''g'' no_args [] [Name ''_public''] None"

definition example_not_self :: stmt where
  "example_not_self =
     FunctionDef ''h'' (no_args\<lparr>args := [\<lparr>arg = ''this'', annotation = None\<rparr>]\<rparr>) []
       [Name ''_public''] None"


definition example_parse :: "stmt list \<Rightarrow> string \<Rightarrow> AST option" where
  "example_parse methods source_text = Some (Module [ClassDef ''Runner'' [] methods []])"

definition example_world :: world where
  "example_world = \<lparr>disk = [''trio/_core/_run.py'' \<mapsto> ''class Runner: ...''], stdout = []\<rparr>"

text \<open>What is generated for a file without marked methods.\<close>

definition example_output :: string where
  "example_output = join ''\<newline>\<newline>'' [file_header example_file, FOOTER]"

text \<open>
  Two marked functions; a tree in which the first is a method of a class and the second
  follows the class at the top level; a tree in which both are methods of the class; and
  a tree in which the second is nested in an \<open>if\<close> statement of a method, beside functions
  whose decorators only resemble the marker.
\<close>

definition example_f :: stmt where
  "example_f = FunctionDef ''f'' (no_args\<lparr>args := [self_arg]\<rparr>) [] [Name ''_public''] None"

definition example_g :: stmt where
  "example_g = AsyncFunctionDef ''g'' (no_args\<lparr>args := [self_arg]\<rparr>) [] [Name ''_public''] None"

definition example_tree :: AST where
  "example_tree = Module [ClassDef ''Runner'' [] [example_f] [], example_g]"

definition example_class_tree :: AST where
  "example_class_tree = Module [ClassDef ''Runner'' [] [example_f, example_g] []]"

definition example_nested_tree :: AST where
  "example_nested_tree =
     Module [ClassDef ''Runner'' []
       [FunctionDef ''outer'' (no_args\<lparr>args := [self_arg]\<rparr>)
          [OtherStmt ''If'' [Name ''flag''] [example_g]] [Name ''_public_api''] None,
        FunctionDef ''called'' (no_args\<lparr>args := [self_arg]\<rparr>) []
          [OtherExpr ''Call'' [Name ''_public'']] None]
       []]"

section \<open>Lemmas\<close>

subsection \<open>The walk\<close>

lemma filter_opt_nodes_Expression [simp]: "filter stmt_like (opt_nodes Expression x) = []"
  by (cases x) (simp_all add: opt_nodes_def)

lemma filter_opt_nodes_Arg [simp]: "filter stmt_like (opt_nodes Arg x) = []"
  by (cases x) (simp_all add: opt_nodes_def)

lemma filter_stmt_like_Expression [simp]: "filter stmt_like (map Expression es) = []"
  by (induction es) simp_all

lemma filter_stmt_like_Arg [simp]: "filter stmt_like (map Arg es) = []"
  by (induction es) simp_all

lemma filter_concat_opt [simp]: "filter stmt_like (concat (map (opt_nodes Expression) xs)) = []"
  by (induction xs) simp_all

lemma children_not_stmt_like:
  "\<not> stmt_like node \<Longrightarrow> filter stmt_like (iter_child_nodes node) = []"
proof (cases node)
  case (Expression e)
  then show ?thesis by (cases e) simp_all
qed simp_all

lemma walk_todo_level:
  "walk_todo (xs @ cs) = xs @ walk_todo (cs @ next_level xs)"
  by (induction xs arbitrary: cs) (simp_all add: next_level_def)

lemma walk_todo_next: "walk_todo q = q @ walk_todo (next_level q)"
  using walk_todo_level[of q "[]"] by simp

lemma filter_next_level:
  "filter stmt_like (next_level q) = filter stmt_like (next_level (filter stmt_like q))"
  by (induction q) (simp_all add: next_level_def children_not_stmt_like)

lemma sum_nodes_next_level:
  "sum_list (map ast_nodes q) = length q + sum_list (map ast_nodes (next_level q))"
proof (induction q)
  case Nil
  show ?case by (simp add: next_level_def)
next
  case (Cons a q)
  then show ?case
    using ast_nodes_children[of a] by (simp add: next_level_def)
qed

lemma ast_nodes_pos: "0 < ast_nodes n"
  by (simp add: ast_nodes_children)

lemma filter_walk_cong:
  "filter stmt_like q1 = filter stmt_like q2 \<Longrightarrow>
   filter stmt_like (walk_todo q1) = filter stmt_like (walk_todo q2)"
proof (induction "sum_list (map ast_nodes q1) + sum_list (map ast_nodes q2)"
       arbitrary: q1 q2 rule: less_induct)
  case less
  show ?case
  proof (cases "q1 = [] \<and> q2 = []")
    case True
    then show ?thesis by simp
  next
    case False
    then have "0 < length q1 + length q2" by auto
    then have m: "sum_list (map ast_nodes (next_level q1)) + sum_list (map ast_nodes (next_level q2))
        < sum_list (map ast_nodes q1) + sum_list (map ast_nodes q2)"
      using sum_nodes_next_level[of q1] sum_nodes_next_level[of q2] by linarith
    have "filter stmt_like (next_level q1) = filter stmt_like (next_level q2)"
      using less.prems filter_next_level[of q1] filter_next_level[of q2] by simp
    from less.hyps[OF m this] less.prems show ?thesis
      using walk_todo_next[of q1] walk_todo_next[of q2] by (metis filter_append)
  qed
qed

lemma is_public_stmt_like: "is_public n \<Longrightarrow> stmt_like n"
  by (cases n) simp_all

lemma is_public_function: "is_public node \<Longrightarrow> is_function node"
  by (cases node) (simp_all split: if_splits)

lemma filter_public_stmt_like: "filter is_public (filter stmt_like xs) = filter is_public xs"
  by (induction xs) (auto dest: is_public_stmt_like)

lemma filter_public_walk_cong:
  assumes "filter stmt_like q1 = filter stmt_like q2"
  shows "filter is_public (walk_todo q1) = filter is_public (walk_todo q2)"
  using filter_walk_cong[OF assms] filter_public_stmt_like by metis

text \<open>
  The loop of \<open>gen_public_wrappers_source\<close> handles the nodes that the scanner yields on
  the tree as parsed, in that order: what the loop body changes under the walk never
  holds a statement.
\<close>

lemma gen_loop_eq:
  "gen_loop to_source f todo = gen_snippets to_source f (filter is_public (walk_todo todo))"
proof (induction to_source f todo rule: gen_loop.induct)
  case (1 to_source f)
  show ?case by simp
next
  case (2 to_source f node todo)
  show ?case
  proof (cases "is_public node")
    case False
    with 2(2) show ?thesis by simp
  next
    case True
    show ?thesis
    proof (cases "gen_snippet to_source f node")
      case (Inl e)
      with True show ?thesis by simp
    next
      case (Inr x)
      obtain m' s where x: "x = (m', s)" by (cases x)
      from gen_snippet_args[OF Inr[unfolded x]] obtain m where
        m: "node = Stmt m" "is_function node" by blast
      obtain rest where r: "iter_child_nodes node = Arguments (stmt.args m) # rest"
        using children_function[of m] m by blast
      have "filter stmt_like (todo @ Arguments (stmt.args m') # tl (iter_child_nodes node))
          = filter stmt_like (todo @ iter_child_nodes node)"
        by (simp add: r)
      from filter_public_walk_cong[OF this] 2(1)[OF True Inr x[symmetric]] True Inr x
      show ?thesis by simp
    qed
  qed
qed

lemma gen_loop_walk:
  "gen_loop to_source f [source] = gen_snippets to_source f (get_public_methods source)"
  by (simp add: gen_loop_eq get_public_methods_def walk_def)

lemma next_level_append: "next_level (xs @ ys) = next_level xs @ next_level ys"
  by (simp add: next_level_def)

lemma funpow_next_level_append:
  "(next_level ^^ d) (xs @ ys) = (next_level ^^ d) xs @ (next_level ^^ d) ys"
  by (induction d arbitrary: xs ys) (simp_all add: next_level_append funpow_swap1)

lemma funpow_next_level_Nil: "(next_level ^^ d) [] = []"
  by (induction d) (simp_all add: next_level_def funpow_swap1)

lemma funpow_next_level_concat:
  "(next_level ^^ d) xs = concat (map (level d) xs)"
proof (induction xs)
  case Nil
  show ?case by (simp add: funpow_next_level_Nil)
next
  case (Cons x xs)
  then show ?case
    using funpow_next_level_append[of d "[x]" xs] by (simp add: level_def)
qed

lemma level_Suc: "level (Suc d) tree = concat (map (level d) (iter_child_nodes tree))"
  using funpow_next_level_concat[of d "iter_child_nodes tree"]
  by (simp add: level_def funpow_swap1 next_level_def)

lemma depth_first_at_shift:
  "depth_first_at (Suc k) node = map (\<lambda>p. (Suc (fst p), snd p)) (depth_first_at k node)"
proof (induction k node rule: depth_first_at.induct)
  case (1 k node)
  have "concat (map (depth_first_at (Suc (Suc k))) (iter_child_nodes node))
      = concat (map (\<lambda>c. map (\<lambda>p. (Suc (fst p), snd p)) (depth_first_at (Suc k) c)) (iter_child_nodes node))"
    using 1 by (simp cong: map_cong)
  then show ?case
    by (simp add: depth_first_at.simps[of k node] depth_first_at.simps[of "Suc k" node] map_concat comp_def)
qed

lemma level_depth_first:
  "level d tree = map snd (filter (\<lambda>p. fst p = d) (depth_first_at 0 tree))"
proof (induction d arbitrary: tree)
  case 0
  have "filter (\<lambda>p. fst p = 0) (depth_first_at (Suc 0) c) = []" for c
    by (subst depth_first_at_shift) (simp add: filter_map comp_def)
  then have "filter (\<lambda>p. fst p = 0) (concat (map (depth_first_at (Suc 0)) cs)) = []" for cs
    by (induction cs) simp_all
  then show ?case
    by (simp add: level_def depth_first_at.simps[of 0 tree])
next
  case (Suc d)
  have "map snd (filter (\<lambda>p. fst p = Suc d) (depth_first_at (Suc 0) c)) = level d c" for c
    by (subst depth_first_at_shift) (simp add: filter_map comp_def Suc)
  then have "map snd (filter (\<lambda>p. fst p = Suc d) (concat (map (depth_first_at (Suc 0)) cs)))
      = concat (map (level d) cs)" for cs
    by (induction cs) simp_all
  then show ?case
    by (simp add: level_Suc depth_first_at.simps[of 0 tree])
qed

lemma sum_nodes_funpow:
  "sum_list (map ast_nodes ((next_level ^^ d) q)) + d \<le> sum_list (map ast_nodes q)
   \<or> (next_level ^^ d) q = []"
proof (induction d)
  case 0
  show ?case by simp
next
  case (Suc d)
  show ?case
  proof (cases "(next_level ^^ d) q = []")
    case True
    moreover have "next_level [] = []" by (simp add: next_level_def)
    ultimately show ?thesis by simp
  next
    case False
    with Suc have "sum_list (map ast_nodes ((next_level ^^ d) q)) + d \<le> sum_list (map ast_nodes q)"
      by simp
    moreover have "Suc 0 \<le> length ((next_level ^^ d) q)"
      using False by (cases "(next_level ^^ d) q") simp_all
    ultimately have "sum_list (map ast_nodes (next_level ((next_level ^^ d) q))) + Suc d
        \<le> sum_list (map ast_nodes q)"
      using sum_nodes_next_level[of "(next_level ^^ d) q"] by linarith
    then show ?thesis by simp
  qed
qed

lemma funpow_next_level_empty:
  assumes "sum_list (map ast_nodes q) \<le> d"
  shows "(next_level ^^ d) q = []"
proof (rule ccontr)
  assume ne: "(next_level ^^ d) q \<noteq> []"
  then obtain x xs where "(next_level ^^ d) q = x # xs" by (cases "(next_level ^^ d) q") auto
  then have "0 < sum_list (map ast_nodes ((next_level ^^ d) q))"
    using ast_nodes_pos[of x] by simp
  with sum_nodes_funpow[of d q] ne assms show False by simp
qed

lemma walk_todo_levels:
  "(next_level ^^ k) q = [] \<Longrightarrow>
   walk_todo q = concat (map (\<lambda>d. (next_level ^^ d) q) [0..<k])"
proof (induction k arbitrary: q)
  case 0
  then show ?case by simp
next
  case (Suc k)
  then have "(next_level ^^ k) (next_level q) = []" by (simp add: funpow_swap1)
  from Suc.IH[OF this] have
    "walk_todo q = q @ concat (map (\<lambda>d. (next_level ^^ Suc d) q) [0..<k])"
    using walk_todo_next[of q] by (simp add: funpow_swap1)
  also have "\<dots> = concat (map (\<lambda>d. (next_level ^^ d) q) (0 # map Suc [0..<k]))"
    by (simp add: comp_def)
  also have "0 # map Suc [0..<k] = [0..<Suc k]"
    by (simp add: map_Suc_upt upt_conv_Cons)
  finally show ?case .
qed

lemma walk_levels:
  "ast_nodes tree \<le> k \<Longrightarrow> walk tree = concat (map (\<lambda>d. level d tree) [0..<k])"
  using walk_todo_levels[OF funpow_next_level_empty[of "[tree]" k]]
  by (simp add: walk_def level_def)

lemma set_walk: "set (walk tree) = (\<Union>d. set (level d tree))"
proof
  show "set (walk tree) \<subseteq> (\<Union>d. set (level d tree))"
    using walk_levels[of tree "ast_nodes tree"] by auto
next
  show "(\<Union>d. set (level d tree)) \<subseteq> set (walk tree)"
  proof
    fix x assume "x \<in> (\<Union>d. set (level d tree))"
    then obtain d where d: "x \<in> set (level d tree)" by auto
    have "walk tree = concat (map (\<lambda>d. level d tree) [0..<max (ast_nodes tree) (Suc d)])"
      by (rule walk_levels) simp
    moreover have "d \<in> set [0..<max (ast_nodes tree) (Suc d)]" by simp
    ultimately show "x \<in> set (walk tree)" using d by auto
  qed
qed

lemma list_ex_is_name: "list_ex (is_name s) d = (Name s \<in> set d)"
proof (induction d)
  case Nil
  show ?case by simp
next
  case (Cons e d)
  then show ?case by (cases e) auto
qed

lemma is_public_iff:
  "is_public node =
     (\<exists>n a b d r. (node = Stmt (FunctionDef n a b d r) \<or> node = Stmt (AsyncFunctionDef n a b d r))
        \<and> Name ''_public'' \<in> set d)"
proof (cases node)
  case (Stmt m)
  then show ?thesis by (cases m) (simp_all add: list_ex_is_name)
qed simp_all

lemma level_empty: "ast_nodes tree \<le> d \<Longrightarrow> level d tree = []"
  using funpow_next_level_empty[of "[tree]" d] by (simp add: level_def)

lemma depth_first_at_depth:
  assumes "p \<in> set (depth_first_at 0 tree)"
  shows "fst p < ast_nodes tree"
proof (rule ccontr)
  assume "\<not> fst p < ast_nodes tree"
  then have "level (fst p) tree = []" by (simp add: level_empty)
  moreover have "snd p \<in> set (level (fst p) tree)"
    using assms by (auto simp: level_depth_first)
  ultimately show False by simp
qed

lemma concat_map_single:
  assumes "d0 < k" "\<And>d. d \<noteq> d0 \<Longrightarrow> A d = []"
  shows "concat (map A [0..<k]) = A d0"
proof -
  have e: "[0..<k] = [0..<d0] @ d0 # [Suc d0..<k]"
    using assms(1) by (metis le_add2 le_add_same_cancel2 less_imp_add_positive upt_add_eq_append upt_conv_Cons)
  have a: "concat (map A [0..<d0]) = []"
    using assms(2) by (auto simp: concat_eq_Nil_conv)
  have b: "concat (map A [Suc d0..<k]) = []"
    using assms(2) by (auto simp: concat_eq_Nil_conv)
  have "concat (map A ([0..<d0] @ d0 # [Suc d0..<k])) = A d0"
    unfolding map_append concat_append list.map concat.simps a b by simp
  then show ?thesis unfolding e[symmetric] .
qed

lemma get_public_methods_levels:
  "get_public_methods tree =
     concat (map (\<lambda>d. map snd (filter (\<lambda>p. fst p = d \<and> is_public (snd p))
                                    (depth_first_at 0 tree)))
                 [0..<ast_nodes tree])"
proof -
  have "filter is_public (level d tree)
      = map snd (filter (\<lambda>p. fst p = d \<and> is_public (snd p)) (depth_first_at 0 tree))" for d
    by (simp add: level_depth_first filter_map comp_def conj_commute del: is_public.simps)
  then show ?thesis
    using walk_levels[of tree "ast_nodes tree"]
    by (simp add: get_public_methods_def filter_concat comp_def del: is_public.simps)
qed

lemma get_public_methods_one_depth:
  assumes "\<forall>p\<in>set (depth_first_at 0 tree). is_public (snd p) \<longrightarrow> fst p = d0"
  shows "get_public_methods tree = filter is_public (depth_first tree)"
proof -
  let ?xs = "depth_first_at 0 tree"
  let ?A = "\<lambda>d. map snd (filter (\<lambda>p. fst p = d \<and> is_public (snd p)) ?xs)"
  have all: "filter is_public (depth_first tree) = ?A d0"
  proof -
    have "filter (\<lambda>p. is_public (snd p)) ?xs = filter (\<lambda>p. fst p = d0 \<and> is_public (snd p)) ?xs"
      using assms by (intro filter_cong) auto
    then show ?thesis
      by (simp add: depth_first_def filter_map comp_def del: is_public.simps)
  qed
  have other: "?A d = []" if "d \<noteq> d0" for d
    using assms that by (auto simp: filter_empty_conv simp del: is_public.simps)
  show ?thesis
  proof (cases "d0 < ast_nodes tree")
    case True
    from concat_map_single[of d0 "ast_nodes tree" ?A, OF True other] all
    show ?thesis by (simp add: get_public_methods_levels del: is_public.simps)
  next
    case False
    have "?A d0 = []"
      using False depth_first_at_depth[of _ tree]
      by (auto simp: filter_empty_conv simp del: is_public.simps)
    with other have "?A d = []" for d by (cases "d = d0") simp_all
    then have "get_public_methods tree = []"
      by (subst get_public_methods_levels) (simp del: is_public.simps)
    with all \<open>?A d0 = []\<close> show ?thesis by simp
  qed
qed

lemma example_tree_walk:
  "get_public_methods example_tree = [Stmt example_g, Stmt example_f]"
  by (simp add: get_public_methods_def walk_def example_tree_def example_f_def example_g_def
        no_args_def self_arg_def opt_nodes_def)

lemma example_tree_depth_first:
  "filter is_public (depth_first example_tree) = [Stmt example_f, Stmt example_g]"
  by (simp add: depth_first_def depth_first_at.simps example_tree_def example_f_def
        example_g_def no_args_def self_arg_def opt_nodes_def)

subsection \<open>Text\<close>

lemma fold_append_map: "fold (\<lambda>a acc. acc @ [f a]) xs acc = acc @ map f xs"
  by (induction xs arbitrary: acc) simp_all

lemma create_passthrough_args_eq:
  "create_passthrough_args funcdef =
     ''('' @ join '', ''
       (map arg (arguments.args (stmt.args funcdef))
        @ (case vararg (stmt.args funcdef) of None \<Rightarrow> [] | Some v \<Rightarrow> [''*'' @ arg v])
        @ map (\<lambda>a. arg a @ ''='' @ arg a) (kwonlyargs (stmt.args funcdef))
        @ (case kwarg (stmt.args funcdef) of None \<Rightarrow> [] | Some k \<Rightarrow> [''**'' @ arg k]))
     @ '')''"
  by (simp add: create_passthrough_args_def fold_append_map split: option.split)

lemma create_passthrough_args_cong:
  "stmt.args m1 = stmt.args m2 \<Longrightarrow> create_passthrough_args m1 = create_passthrough_args m2"
  by (simp add: create_passthrough_args_def)

lemma one_line_append [simp]: "one_line (xs @ ys) = (one_line xs \<and> one_line ys)"
  by (simp add: one_line_def)

lemma one_line_Cons [simp]: "one_line (c # s) = (\<not> linebreak c \<and> one_line s)"
  by (simp add: one_line_def)

lemma one_line_Nil [simp]: "one_line []"
  by (simp add: one_line_def)

lemma one_line_join:
  "one_line sep \<Longrightarrow> list_all one_line xs \<Longrightarrow> one_line (join sep xs)"
  by (induction sep xs rule: join.induct) simp_all

lemma one_line_create_passthrough_args:
  assumes "list_all (\<lambda>a. one_line (arg a)) (params m)"
  shows "one_line (create_passthrough_args m)"
proof -
  have "list_all one_line
     (map arg (arguments.args (stmt.args m))
        @ (case vararg (stmt.args m) of None \<Rightarrow> [] | Some v \<Rightarrow> [''*'' @ arg v])
        @ map (\<lambda>a. arg a @ ''='' @ arg a) (kwonlyargs (stmt.args m))
        @ (case kwarg (stmt.args m) of None \<Rightarrow> [] | Some k \<Rightarrow> [''**'' @ arg k]))"
    using assms
    by (auto simp: params_def list_all_iff linebreak_def split: option.splits)
  then show ?thesis
    by (simp add: create_passthrough_args_eq one_line_join linebreak_def)
qed

lemma splitlines_line:
  "one_line l \<Longrightarrow>
   splitlines cur (l @ CHR 0x0A # rest) = (cur @ l @ [CHR 0x0A]) # splitlines [] rest"
proof (induction l arbitrary: cur)
  case Nil
  show ?case by (cases rest) (simp_all add: linebreak_def)
next
  case (Cons c l)
  then have c: "\<not> linebreak c" and l: "one_line l" by simp_all
  from c have "c \<noteq> CHR 0x0D" by (auto simp: linebreak_def)
  obtain d s where ds: "l @ CHR 0x0A # rest = d # s" by (cases l) auto
  have "splitlines cur ((c # l) @ CHR 0x0A # rest) = splitlines (cur @ [c]) (l @ CHR 0x0A # rest)"
    using c \<open>c \<noteq> CHR 0x0D\<close> by (simp add: ds)
  then show ?case using Cons.IH[OF l] by simp
qed

lemma indent_line:
  assumes "one_line l" "list_ex (\<lambda>c. \<not> isspace c) l"
  shows "indent (l @ CHR 0x0A # rest) prefix = prefix @ l @ CHR 0x0A # indent rest prefix"
  using assms by (simp add: indent_def splitlines_line)

lemma indent_TEMPLATE_format:
  assumes "one_line a" "one_line b" "one_line c"
  shows \<open>indent (TEMPLATE_format a b c) ''    '' =
     ''    locals()[LOCALS_KEY_KI_PROTECTION_ENABLED] = True\<newline>'' @
     ''    try:\<newline>'' @
     ''        return'' @ a @ ''GLOBAL_RUN_CONTEXT.'' @ b @ ''.'' @ c @ ''\<newline>'' @
     ''    except AttributeError:\<newline>'' @
     ''        raise RuntimeError("must be called from async context")\<newline>''\<close>
proof -
  let ?p = "''    ''"
  let ?l1 = "''locals()[LOCALS_KEY_KI_PROTECTION_ENABLED] = True''"
  let ?l2 = "''try:''"
  let ?l3 = "''    return'' @ a @ ''GLOBAL_RUN_CONTEXT.'' @ b @ ''.'' @ c"
  let ?l4 = "''except AttributeError:''"
  let ?l5 = \<open>''    raise RuntimeError("must be called from async context")''\<close>
  have 5: "indent (?l5 @ CHR 0x0A # []) ?p = ?p @ ?l5 @ CHR 0x0A # indent [] ?p"
    by (rule indent_line) (simp_all add: linebreak_def isspace_def)
  have 4: "indent (?l4 @ CHR 0x0A # r) ?p = ?p @ ?l4 @ CHR 0x0A # indent r ?p" for r
    by (rule indent_line) (simp_all add: linebreak_def isspace_def)
  have 3: "indent (?l3 @ CHR 0x0A # r) ?p = ?p @ ?l3 @ CHR 0x0A # indent r ?p" for r
    by (rule indent_line) (use assms in \<open>simp_all add: linebreak_def isspace_def\<close>)
  have 2: "indent (?l2 @ CHR 0x0A # r) ?p = ?p @ ?l2 @ CHR 0x0A # indent r ?p" for r
    by (rule indent_line) (simp_all add: linebreak_def isspace_def)
  have 1: "indent (?l1 @ CHR 0x0A # r) ?p = ?p @ ?l1 @ CHR 0x0A # indent r ?p" for r
    by (rule indent_line) (simp_all add: linebreak_def isspace_def)
  have 0: "indent [] ?p = []" by (simp add: indent_def)
  have "TEMPLATE_format a b c =
      ?l1 @ CHR 0x0A # ?l2 @ CHR 0x0A # ?l3 @ CHR 0x0A # ?l4 @ CHR 0x0A # ?l5 @ CHR 0x0A # []"
    by (simp add: TEMPLATE_format_def)
  then show ?thesis
    by (simp only: 1 2 3 4 5 0) simp
qed

subsection \<open>The loop body\<close>

lemma gen_snippet_not_function:
  "\<not> is_function node \<Longrightarrow> gen_snippet to_source f node = Inl AttributeError"
  by (cases node) (simp_all add: gen_snippet_def)

lemma gen_snippet_no_args:
  "is_function (Stmt m) \<Longrightarrow> arguments.args (stmt.args m) = [] \<Longrightarrow>
   gen_snippet to_source f (Stmt m) = Inl IndexError"
  by (simp add: gen_snippet_def)

lemma gen_snippet_not_self:
  "is_function (Stmt m) \<Longrightarrow> arguments.args (stmt.args m) = a0 # rest \<Longrightarrow> arg a0 \<noteq> ''self'' \<Longrightarrow>
   gen_snippet to_source f (Stmt m) = Inl AssertionError"
  by (simp add: gen_snippet_def)

lemma gen_snippet_self:
  assumes "is_function (Stmt m)" "arguments.args (stmt.args m) = a0 # rest" "arg a0 = ''self''"
  shows "\<exists>method snippet. gen_snippet to_source f (Stmt m) = Inr (method, snippet)"
  using assms by (simp add: gen_snippet_def Let_def)

lemma gen_snippet_error:
  assumes "is_function (Stmt m)" "gen_snippet to_source f (Stmt m) = Inl e"
  shows "(e = IndexError \<and> arguments.args (stmt.args m) = [])
       \<or> (e = AssertionError \<and> arguments.args (stmt.args m) \<noteq> [])"
  using assms by (auto simp: gen_snippet_def Let_def split: list.splits if_splits)

lemma gen_snippet_method:
  assumes "gen_snippet to_source f (Stmt m) = Inr (method, snippet)"
  shows "is_function (Stmt m)"
    and "\<exists>a0. arguments.args (stmt.args m) = a0 # arguments.args (stmt.args method) \<and> arg a0 = ''self''"
    and "stmt.args method = (stmt.args m)\<lparr>args := tl (arguments.args (stmt.args m))\<rparr>"
    and "decorator_list method = []"
    and "name method = name m"
    and "returns method = returns m"
    and "is_async method = is_async m"
    and "body method = (if get_docstring m = None then [] else take 1 (body m))"
  using assms
  by (cases m; auto simp: gen_snippet_def Let_def get_docstring_def split: list.splits if_splits)+

lemma gen_snippet_FunctionDef:
  "gen_snippet to_source f (Stmt (FunctionDef n a b d r)) =
     (case arguments.args a of
        [] \<Rightarrow> Inl IndexError
      | a0 # rest \<Rightarrow>
          if arg a0 \<noteq> ''self'' then Inl AssertionError
          else
            let method = FunctionDef n (a\<lparr>args := rest\<rparr>)
                           (if docstring_of b = None then [] else take 1 b) [] r;
                func = to_source method;
                func = (if list_ex (is_name ''contextmanager'') d
                        then replace func ''->Iterator'' ''->ContextManager'' else func);
                func = (if stem (path f) = ''_run'' \<and> startswith func ''def reschedule''
                        then replace func ''None:\<newline>''
                               ''None:  # type: ignore[has-type]\<newline>''
                        else func)
            in Inr (method, func @ indent (TEMPLATE_format '' '' (modname f)
                       (n @ create_passthrough_args (FunctionDef n (a\<lparr>args := rest\<rparr>) b [] r)))
                     ''    ''))"
  by (cases "docstring_of b")
     (simp_all add: gen_snippet_def Let_def get_docstring_def split: list.split)

lemma gen_snippet_AsyncFunctionDef:
  "gen_snippet to_source f (Stmt (AsyncFunctionDef n a b d r)) =
     (case arguments.args a of
        [] \<Rightarrow> Inl IndexError
      | a0 # rest \<Rightarrow>
          if arg a0 \<noteq> ''self'' then Inl AssertionError
          else
            let method = AsyncFunctionDef n (a\<lparr>args := rest\<rparr>)
                           (if docstring_of b = None then [] else take 1 b) [] r;
                func = to_source method;
                func = (if list_ex (is_name ''contextmanager'') d
                        then replace func ''->Iterator'' ''->ContextManager'' else func);
                func = (if stem (path f) = ''_run'' \<and> startswith func ''def reschedule''
                        then replace func ''None:\<newline>''
                               ''None:  # type: ignore[has-type]\<newline>''
                        else func)
            in Inr (method, func @ indent (TEMPLATE_format '' await '' (modname f)
                       (n @ create_passthrough_args (AsyncFunctionDef n (a\<lparr>args := rest\<rparr>) b [] r)))
                     ''    ''))"
  by (cases "docstring_of b")
     (simp_all add: gen_snippet_def Let_def get_docstring_def split: list.split)

lemma gen_snippet_text:
  assumes "gen_snippet to_source f (Stmt m) = Inr (method, snippet)"
  shows "snippet =
     (let func = to_source method;
          func = (if list_ex (is_name ''contextmanager'') (decorator_list m)
                  then replace func ''->Iterator'' ''->ContextManager'' else func)
      in if stem (path f) = ''_run'' \<and> startswith func ''def reschedule''
         then replace func ''None:\<newline>'' ''None:  # type: ignore[has-type]\<newline>''
         else func)
     @ indent (TEMPLATE_format (if is_async m then '' await '' else '' '') (modname f)
                 (name m @ create_passthrough_args method)) ''    ''"
proof (cases m)
  case (FunctionDef n a b d r)
  from assms[unfolded FunctionDef gen_snippet_FunctionDef] obtain a0 rest where
    a: "arguments.args a = a0 # rest" "arg a0 = ''self''"
    by (auto split: list.splits if_splits)
  have "create_passthrough_args (FunctionDef n (a\<lparr>args := rest\<rparr>) b [] r)
      = create_passthrough_args method"
    using gen_snippet_method(3)[OF assms] a FunctionDef
    by (intro create_passthrough_args_cong) simp
  then show ?thesis
    using assms a unfolding FunctionDef gen_snippet_FunctionDef
    by (auto simp: Let_def)
next
  case (AsyncFunctionDef n a b d r)
  from assms[unfolded AsyncFunctionDef gen_snippet_AsyncFunctionDef] obtain a0 rest where
    a: "arguments.args a = a0 # rest" "arg a0 = ''self''"
    by (auto split: list.splits if_splits)
  have "create_passthrough_args (AsyncFunctionDef n (a\<lparr>args := rest\<rparr>) b [] r)
      = create_passthrough_args method"
    using gen_snippet_method(3)[OF assms] a AsyncFunctionDef
    by (intro create_passthrough_args_cong) simp
  then show ?thesis
    using assms a unfolding AsyncFunctionDef gen_snippet_AsyncFunctionDef
    by (auto simp: Let_def)
qed (use gen_snippet_method(1)[OF assms] in simp_all)


lemma gen_snippet_method_eq:
  assumes "gen_snippet to_source f (Stmt m) = Inr (method, snippet)"
  shows "method =
     set_body (if get_docstring m = None then [] else take 1 (body m))
       (set_decorator_list []
          (set_args ((stmt.args m)\<lparr>args := tl (arguments.args (stmt.args m))\<rparr>) m))"
proof (cases m)
  case (FunctionDef n a b d r)
  with assms show ?thesis
    by (auto simp: gen_snippet_FunctionDef Let_def get_docstring_def split: list.splits if_splits)
next
  case (AsyncFunctionDef n a b d r)
  with assms show ?thesis
    by (auto simp: gen_snippet_AsyncFunctionDef Let_def get_docstring_def
          split: list.splits if_splits)
qed (use gen_snippet_method(1)[OF assms] in simp_all)

lemma example_gen_snippet:
  "map_sum id fst (gen_snippet to_source example_file (Stmt example_method)) = Inr example_stripped"
  by (simp add: gen_snippet_AsyncFunctionDef example_method_def example_stripped_def self_arg_def
        Let_def)

lemma example_parse_file:
  "parse_file (example_parse ms) (disk example_world) (path example_file)
     = Inr (Module [ClassDef ''Runner'' [] ms []])"
  by (simp add: parse_file_def example_parse_def example_world_def example_file_def)

lemma example_public_methods:
  "get_public_methods (Module [ClassDef ''Runner'' [] [example_no_params] []])
     = [Stmt example_no_params]"
  "get_public_methods (Module [ClassDef ''Runner'' [] [example_not_self] []])
     = [Stmt example_not_self]"
  "get_public_methods (Module [ClassDef ''Runner'' [] [example_method] []])
     = [Stmt example_method]"
  by (simp_all add: get_public_methods_def walk_def example_no_params_def example_not_self_def
        example_method_def no_args_def self_arg_def opt_nodes_def)

subsection \<open>Runs\<close>

lemma gen_snippets_Inl_iff:
  "(\<exists>e. gen_snippets to_source f nodes = Inl e)
     = (\<exists>n\<in>set nodes. \<exists>e. gen_snippet to_source f n = Inl e)"
  by (induction nodes) (auto split: sum.splits)

lemma gen_snippets_Inl_source:
  "gen_snippets to_source f nodes = Inl e \<Longrightarrow> \<exists>n\<in>set nodes. gen_snippet to_source f n = Inl e"
  by (induction nodes) (auto split: sum.splits)

lemma gen_snippets_AssertionError:
  assumes "node \<in> set nodes" "gen_snippet to_source f node = Inl e"
    and "list_all is_public nodes"
    and "\<forall>m. Stmt m \<in> set nodes \<longrightarrow> arguments.args (stmt.args m) \<noteq> []"
  shows "gen_snippets to_source f nodes = Inl AssertionError"
proof -
  from assms(1,2) obtain e' where e': "gen_snippets to_source f nodes = Inl e'"
    using gen_snippets_Inl_iff[of to_source f nodes] by blast
  from gen_snippets_Inl_source[OF e'] obtain n where
    n: "n \<in> set nodes" "gen_snippet to_source f n = Inl e'" by blast
  from n(1) assms(3) have "is_function n"
    by (auto simp: list_all_iff intro: is_public_function)
  then obtain m where m: "n = Stmt m" by (cases n) simp_all
  from gen_snippet_error[of m to_source f e'] n \<open>is_function n\<close> assms(4) m
  have "e' = AssertionError" by auto
  with e' show ?thesis by simp
qed

lemma gen_public_wrappers_source_parsed:
  "parse_file parse d (path f) = Inr source \<Longrightarrow>
   gen_public_wrappers_source to_source parse d f =
     (case gen_snippets to_source f (get_public_methods source) of
        Inl e \<Rightarrow> Inl e
      | Inr snippets \<Rightarrow> Inr (join ''\<newline>\<newline>'' ([file_header f] @ snippets @ [FOOTER])))"
  by (simp add: gen_public_wrappers_source_def gen_loop_walk del: gen_loop.simps)

lemma gen_public_wrappers_source_fails:
  assumes "parse_file parse d (path f) = Inr source"
    and "node \<in> set (get_public_methods source)"
    and "gen_snippet to_source f node = Inl e"
  shows "\<exists>e'. gen_public_wrappers_source to_source parse d f = Inl e'"
proof -
  from assms(2,3) have "\<exists>e'. gen_snippets to_source f (get_public_methods source) = Inl e'"
    unfolding gen_snippets_Inl_iff by blast
  then show ?thesis
    by (auto simp: gen_public_wrappers_source_parsed[OF assms(1)])
qed

lemma disk_print_line [simp]: "disk (print_line s w) = disk w"
  by (simp add: print_line_def)

lemma scan_files_disk: "disk (snd (scan_files to_source parse files new_files w)) = disk w"
proof (induction files arbitrary: new_files w)
  case Nil
  show ?case by simp
next
  case (Cons f files)
  show ?case
    by (simp add: Let_def Cons split: sum.split prod.split)
qed

lemma scan_files_fails:
  assumes "f \<in> set files"
    and "gen_public_wrappers_source to_source parse (disk w) f = Inl e"
  shows "\<exists>e'. fst (scan_files to_source parse files new_files w) = Inl e'"
  using assms
proof (induction files arbitrary: new_files w)
  case Nil
  then show ?case by simp
next
  case (Cons g files)
  show ?case
  proof (cases "gen_public_wrappers_source to_source parse (disk w) g")
    case (Inl e')
    then show ?thesis by (simp add: Let_def)
  next
    case (Inr new_source)
    with Cons.prems have "f \<in> set files" by auto
    from Cons.IH[OF this, of "print_line (''Scanning: '' @ path g) w"] Cons.prems(2)
    show ?thesis
      by (simp add: Let_def Inr split: prod.split)
  qed
qed

lemma process_scan_fails:
  "fst (scan_files to_source parse files [] w) = Inl e \<Longrightarrow>
   fst (process to_source parse files do_test w) = Inl e
   \<and> disk (snd (process to_source parse files do_test w)) = disk w"
  using scan_files_disk[of to_source parse files "[]" w]
  by (cases "scan_files to_source parse files [] w") (simp add: process_def)

lemma process_aborts:
  assumes "f \<in> set files"
    and "parse_file parse (disk w) (path f) = Inr source"
    and "node \<in> set (get_public_methods source)"
    and "gen_snippet to_source f node = Inl e"
  shows "(\<exists>e'. fst (process to_source parse files do_test w) = Inl e')
     \<and> disk (snd (process to_source parse files do_test w)) = disk w"
proof -
  from gen_public_wrappers_source_fails[OF assms(2,3,4)] obtain e1 where
    "gen_public_wrappers_source to_source parse (disk w) f = Inl e1" by blast
  from scan_files_fails[OF assms(1) this] obtain e2 where
    "fst (scan_files to_source parse files [] w) = Inl e2" by blast
  from process_scan_fails[OF this] show ?thesis by blast
qed

lemma matches_disk_files_iff:
  "matches_disk_files new_files d = (\<forall>(p, s)\<in>set new_files. d p = Some s)"
  by (induction new_files) (auto split: option.splits if_splits)


lemma process_test_result:
  assumes "fst (scan_files to_source parse files [] w) = Inr new_files"
  shows "fst (process to_source parse files True w) =
     (if matches_disk_files new_files (disk w) then Inr () else Inl (SystemExit 1))"
  using assms scan_files_disk[of to_source parse files "[]" w]
  by (cases "scan_files to_source parse files [] w") (auto simp: process_def)

lemma fst_set_update: "fst ` set (AList.update k v al) = insert k (fst ` set al)"
  by (induction al) auto

lemma scan_files_paths:
  "fst (scan_files to_source parse files new_files w) = Inr result \<Longrightarrow>
   fst ` set result = fst ` set new_files \<union> output_path ` set files"
proof (induction files arbitrary: new_files w)
  case Nil
  then show ?case by simp
next
  case (Cons f files)
  show ?case
  proof (cases "gen_public_wrappers_source to_source parse (disk (print_line (''Scanning: '' @ path f) w)) f")
    case (Inl e)
    with Cons.prems show ?thesis by (simp add: Let_def)
  next
    case (Inr new_source)
    with Cons.prems have "fst (scan_files to_source parse files
        (AList.update (output_path f) new_source new_files)
        (print_line (''Scanning: '' @ path f) w)) = Inr result"
      by (simp add: Let_def output_path_def split: prod.splits)
    from Cons.IH[OF this] show ?thesis
      by (auto simp: fst_set_update)
  qed
qed




lemma scan_one_file:
  assumes "gen_public_wrappers_source to_source parse (disk w) f = Inr new_source"
  shows "fst (scan_files to_source parse [f] [] w) = Inr [(output_path f, new_source)]"
proof -
  obtain dirname basename where s: "path_split (path f) = (dirname, basename)"
    by (cases "path_split (path f)")
  then have "output_path f = path_join dirname (PREFIX @ basename)"
    by (simp add: output_path_def)
  with assms s show ?thesis by (simp add: Let_def)
qed

lemma example_output_path: "output_path example_file = ''trio/_core/_generated_run.py''"
  by (simp add: output_path_def example_file_def path_split_def path_tail_def path_join_def
        startswith_def endswith_def PREFIX_def Let_def)

lemma example_generated:
  "d ''trio/_core/_run.py'' = Some t \<Longrightarrow>
   gen_public_wrappers_source to_source (example_parse []) d example_file = Inr example_output"
proof -
  assume d: "d ''trio/_core/_run.py'' = Some t"
  have p: "parse_file (example_parse []) d (path example_file)
      = Inr (Module [ClassDef ''Runner'' [] [] []])"
    using d by (simp add: parse_file_def example_parse_def example_file_def)
  have "get_public_methods (Module [ClassDef ''Runner'' [] [] []]) = []"
    by (simp add: get_public_methods_def walk_def)
  then show ?thesis
    by (simp add: gen_public_wrappers_source_parsed[OF p] example_output_def)
qed

lemma example_scan:
  "disk w ''trio/_core/_run.py'' = Some t \<Longrightarrow>
   fst (scan_files to_source (example_parse []) [example_file] [] w)
     = Inr [(''trio/_core/_generated_run.py'', example_output)]"
  using scan_one_file[OF example_generated, of w t to_source]
  by (simp only: example_output_path)

lemma gen_public_wrappers_source_frame:
  "d1 (path f) = d2 (path f) \<Longrightarrow>
   gen_public_wrappers_source to_source parse d1 f
     = gen_public_wrappers_source to_source parse d2 f"
  by (simp add: gen_public_wrappers_source_def parse_file_def del: gen_loop.simps)

lemma scan_files_agree:
  "\<forall>f\<in>set files. disk w1 (path f) = disk w2 (path f) \<Longrightarrow>
   fst (scan_files to_source parse files new_files w1)
     = fst (scan_files to_source parse files new_files w2)"
proof (induction files arbitrary: new_files w1 w2)
  case Nil
  show ?case by simp
next
  case (Cons f files)
  let ?w1 = "print_line (''Scanning: '' @ path f) w1"
  let ?w2 = "print_line (''Scanning: '' @ path f) w2"
  have g: "gen_public_wrappers_source to_source parse (disk ?w1) f
      = gen_public_wrappers_source to_source parse (disk ?w2) f"
    using Cons.prems by (intro gen_public_wrappers_source_frame) simp
  have "\<forall>f\<in>set files. disk ?w1 (path f) = disk ?w2 (path f)"
    using Cons.prems by simp
  from Cons.IH[OF this] g show ?case
    by (simp add: Let_def split: sum.split prod.split)
qed

lemma scan_files_distinct:
  "distinct (map fst new_files) \<Longrightarrow>
   fst (scan_files to_source parse files new_files w) = Inr result \<Longrightarrow>
   distinct (map fst result)"
proof (induction files arbitrary: new_files w)
  case Nil
  then show ?case by simp
next
  case (Cons f files)
  let ?w = "print_line (''Scanning: '' @ path f) w"
  show ?case
  proof (cases "gen_public_wrappers_source to_source parse (disk ?w) f")
    case (Inl e)
    with Cons.prems show ?thesis by (simp add: Let_def)
  next
    case (Inr new_source)
    with Cons.prems have "fst (scan_files to_source parse files
        (AList.update (output_path f) new_source new_files) ?w) = Inr result"
      by (simp add: Let_def output_path_def split: prod.splits)
    moreover have "distinct (map fst (AList.update (output_path f) new_source new_files))"
      using Cons.prems(1) by (rule distinct_update)
    ultimately show ?thesis by (rule Cons.IH[rotated])
  qed
qed

lemma map_of_absent:
  assumes "p \<notin> fst ` set xs"
  shows "(d ++ map_of xs) p = d p"
proof -
  from assms have "map_of xs p = None" by (simp add: map_of_eq_None_iff)
  then show ?thesis by (simp add: map_add_def)
qed

lemma map_of_present:
  "distinct (map fst xs) \<Longrightarrow> (p, s) \<in> set xs \<Longrightarrow> (d ++ map_of xs) p = Some s"
  by (simp add: map_add_Some_iff)

lemma disk_after_writes:
  assumes "distinct (map fst new_files)"
  shows "disk (fold write_file new_files w) = disk w ++ map_of new_files"
  using assms
proof (induction new_files arbitrary: w)
  case Nil
  show ?case by simp
next
  case (Cons x new_files)
  then have d: "distinct (map fst new_files)" and x: "fst x \<notin> fst ` set new_files"
    by simp_all
  have "disk (fold write_file (x # new_files) w) = disk (write_file x w) ++ map_of new_files"
    using Cons.IH[OF d, of "write_file x w"] by simp
  also have "disk (write_file x w) = (disk w)(fst x \<mapsto> snd x)"
    by (simp add: write_file_def)
  also have "(disk w)(fst x \<mapsto> snd x) ++ map_of new_files = disk w ++ map_of (x # new_files)"
  proof
    fix p
    show "((disk w)(fst x \<mapsto> snd x) ++ map_of new_files) p
        = (disk w ++ map_of (x # new_files)) p"
    proof (cases "p = fst x")
      case True
      then have "map_of new_files p = None" using x by (simp add: map_of_eq_None_iff)
      with True show ?thesis by (cases x) (simp add: map_add_def)
    next
      case False
      then show ?thesis by (cases x) (simp add: map_add_def split: option.split)
    qed
  qed
  finally show ?case .
qed

lemma process_write_result:
  assumes "fst (scan_files to_source parse files [] w) = Inr new_files"
  shows "fst (process to_source parse files False w) = Inr ()"
    and "disk (snd (process to_source parse files False w)) = disk w ++ map_of new_files"
proof -
  obtain w1 where s: "scan_files to_source parse files [] w = (Inr new_files, w1)"
    using assms by (cases "scan_files to_source parse files [] w") simp
  have d: "disk w1 = disk w"
    using scan_files_disk[of to_source parse files "[]" w] s by simp
  have "distinct (map fst new_files)"
    using scan_files_distinct[of "[]" to_source parse files w new_files] assms by simp
  from disk_after_writes[OF this, of w1] d s
  show "fst (process to_source parse files False w) = Inr ()"
    and "disk (snd (process to_source parse files False w)) = disk w ++ map_of new_files"
    by (simp_all add: process_def)
qed

section \<open>Properties\<close>

text \<open>
  C1.  The argument string of the forwarding call lists the positional parameters (the
  entries of \<open>args.args\<close>; the field \<open>posonlyargs\<close> is not read) by name in declared
  order, then the variadic positional parameter with \<open>*\<close>, then every
  keyword-only parameter as \<open>name=name\<close>, then the variadic keyword parameter with
  \<open>**\<close>, separated by a comma and a space and enclosed in parentheses.  For the
  parameters \<open>a, b, *rest, c=1, **kw\<close> of an ordinary or asynchronous function the
  string is \<open>(a, b, *rest, c=c, **kw)\<close>.
\<close>

theorem create_passthrough_args_order:
  "create_passthrough_args funcdef =
     ''('' @ join '', ''
       (map arg (arguments.args (stmt.args funcdef))
        @ (case vararg (stmt.args funcdef) of None \<Rightarrow> [] | Some v \<Rightarrow> [''*'' @ arg v])
        @ map (\<lambda>a. arg a @ ''='' @ arg a) (kwonlyargs (stmt.args funcdef))
        @ (case kwarg (stmt.args funcdef) of None \<Rightarrow> [] | Some k \<Rightarrow> [''**'' @ arg k]))
     @ '')''
   \<and> create_passthrough_args (FunctionDef ''m'' example_args b d r)
       = ''(a, b, *rest, c=c, **kw)''
   \<and> create_passthrough_args (AsyncFunctionDef ''m'' example_args b d r)
       = ''(a, b, *rest, c=c, **kw)''"
proof -
  have "create_passthrough_args (FunctionDef ''m'' example_args b d r)
      = ''(a, b, *rest, c=c, **kw)''"
    by (simp add: create_passthrough_args_def example_args_def)
  moreover have "create_passthrough_args (AsyncFunctionDef ''m'' example_args b d r)
      = ''(a, b, *rest, c=c, **kw)''"
    by (simp add: create_passthrough_args_def example_args_def)
  ultimately show ?thesis
    using create_passthrough_args_eq[of funcdef] by blast
qed

text \<open>
  C2.  When the loop body succeeds on a method, the snippet is the rendered definition
  (after the two textual corrections of the loop body) followed by exactly the delegation
  pattern: the protection flag, the \<open>return\<close> of the call of the method's own name on
  the context attribute with the transformed arguments, with \<open>await\<close> exactly when the
  method is asynchronous, and the \<open>AttributeError\<close> handler that raises the
  \<open>RuntimeError\<close>.  The texts put into the pattern (module name, method name, parameter
  names) hold no line boundary, as Python names do.
\<close>

theorem snippet_is_delegation:
  assumes "gen_snippet to_source file (Stmt m) = Inr (method, snippet)"
    and "one_line (modname file)"
    and "one_line (name m)"
    and "list_all (\<lambda>a. one_line (arg a)) (params method)"
  shows "snippet =
     (let func = to_source method;
          func = (if list_ex (is_name ''contextmanager'') (decorator_list m)
                  then replace func ''->Iterator'' ''->ContextManager'' else func)
      in if stem (path file) = ''_run'' \<and> startswith func ''def reschedule''
         then replace func ''None:\<newline>'' ''None:  # type: ignore[has-type]\<newline>''
         else func)
     @ delegation_pattern (is_async m) (modname file) (name m @ create_passthrough_args method)"
proof -
  have "one_line (if is_async m then '' await '' else '' '')"
    by (simp add: linebreak_def)
  moreover have "one_line (name m @ create_passthrough_args method)"
    using assms(3,4) by (simp add: one_line_create_passthrough_args)
  ultimately have "indent (TEMPLATE_format (if is_async m then '' await '' else '' '')
      (modname file) (name m @ create_passthrough_args method)) ''    ''
    = delegation_pattern (is_async m) (modname file) (name m @ create_passthrough_args method)"
    using assms(2) by (simp only: indent_TEMPLATE_format delegation_pattern_def)
  then show ?thesis
    using gen_snippet_text[OF assms(1)] by simp
qed

text \<open>
  The method \<open>async def f(self, x, *, y=2)\<close> with a docstring: the delegation line is
  \<open>return await GLOBAL_RUN_CONTEXT.runner.f(x, y=y)\<close>.
\<close>

theorem snippet_is_delegation_witness:
  \<open>\<exists>method. gen_snippet example_to_source example_file (Stmt example_method) =
     Inr (method,
       ''async def f(x, *, y=2):\<newline>'' @
       ''    """doc"""\<newline>'' @
       ''    locals()[LOCALS_KEY_KI_PROTECTION_ENABLED] = True\<newline>'' @
       ''    try:\<newline>'' @
       ''        return await GLOBAL_RUN_CONTEXT.runner.f(x, y=y)\<newline>'' @
       ''    except AttributeError:\<newline>'' @
       ''        raise RuntimeError("must be called from async context")\<newline>'')\<close>
proof -
  obtain snippet where
    g: "gen_snippet example_to_source example_file (Stmt example_method)
          = Inr (example_stripped, snippet)"
    using example_gen_snippet[of example_to_source]
    by (cases "gen_snippet example_to_source example_file (Stmt example_method)") auto
  have "one_line (modname example_file)" "one_line (name example_method)"
    "list_all (\<lambda>a. one_line (arg a)) (params example_stripped)"
    by (simp_all add: example_file_def example_method_def example_stripped_def params_def
          linebreak_def)
  from snippet_is_delegation[OF g this] show ?thesis
    unfolding g
    by (simp add: example_to_source_def example_stripped_def example_method_def
          example_file_def delegation_pattern_def create_passthrough_args_eq stem_def
          path_tail_def startswith_def Let_def)
qed

text \<open>
  C6.  A marked method without positional parameters makes the loop body fail (the
  read of the first parameter raises \<open>IndexError\<close>), and with it the whole run: \<open>process\<close>
  returns an error and writes no file.  Whenever the loop body succeeds, the first
  positional parameter is gone from the node before it is rendered and before the
  forwarding call is built: the snippet is made of the rendering of the node without it
  and of the forwarding call of that node.
\<close>

theorem receiver_removed:
  "(is_function (Stmt m) \<and> arguments.args (stmt.args m) = [] \<longrightarrow>
      gen_snippet to_source file (Stmt m) = Inl IndexError)
   \<and> (gen_snippet to_source file (Stmt m) = Inr (method, snippet) \<longrightarrow>
        arguments.args (stmt.args m) \<noteq> []
        \<and> stmt.args method = (stmt.args m)\<lparr>args := tl (arguments.args (stmt.args m))\<rparr>
        \<and> snippet =
            (let func = to_source method;
                 func = (if list_ex (is_name ''contextmanager'') (decorator_list m)
                         then replace func ''->Iterator'' ''->ContextManager'' else func)
             in if stem (path file) = ''_run'' \<and> startswith func ''def reschedule''
                then replace func ''None:\<newline>'' ''None:  # type: ignore[has-type]\<newline>''
                else func)
            @ indent (TEMPLATE_format (if is_async m then '' await '' else '' '') (modname file)
                        (name m @ create_passthrough_args method)) ''    '')
   \<and> (file \<in> set files \<and> parse_file parse (disk w) (path file) = Inr source
        \<and> Stmt m \<in> set (get_public_methods source) \<and> arguments.args (stmt.args m) = [] \<longrightarrow>
        (\<exists>e. fst (process to_source parse files do_test w) = Inl e)
        \<and> disk (snd (process to_source parse files do_test w)) = disk w)"
proof (intro conjI impI)
  assume "is_function (Stmt m) \<and> arguments.args (stmt.args m) = []"
  then show "gen_snippet to_source file (Stmt m) = Inl IndexError"
    by (simp add: gen_snippet_no_args)
next
  assume g: "gen_snippet to_source file (Stmt m) = Inr (method, snippet)"
  from gen_snippet_method(2)[OF g] show "arguments.args (stmt.args m) \<noteq> []" by auto
  from gen_snippet_method(3)[OF g]
  show "stmt.args method = (stmt.args m)\<lparr>args := tl (arguments.args (stmt.args m))\<rparr>" .
  from gen_snippet_text[OF g]
  show "snippet =
            (let func = to_source method;
                 func = (if list_ex (is_name ''contextmanager'') (decorator_list m)
                         then replace func ''->Iterator'' ''->ContextManager'' else func)
             in if stem (path file) = ''_run'' \<and> startswith func ''def reschedule''
                then replace func ''None:\<newline>'' ''None:  # type: ignore[has-type]\<newline>''
                else func)
            @ indent (TEMPLATE_format (if is_async m then '' await '' else '' '') (modname file)
                        (name m @ create_passthrough_args method)) ''    ''" .
next
  assume a: "file \<in> set files \<and> parse_file parse (disk w) (path file) = Inr source
        \<and> Stmt m \<in> set (get_public_methods source) \<and> arguments.args (stmt.args m) = []"
  then have "is_public (Stmt m)" by (simp add: get_public_methods_def del: is_public.simps)
  then have "is_function (Stmt m)" by (rule is_public_function)
  with a have "gen_snippet to_source file (Stmt m) = Inl IndexError"
    by (simp add: gen_snippet_no_args)
  with a have *: "(\<exists>e. fst (process to_source parse files do_test w) = Inl e)
        \<and> disk (snd (process to_source parse files do_test w)) = disk w"
    by (intro process_aborts[where node = "Stmt m" and e = IndexError and source = source])
       simp_all
  from * show "\<exists>e. fst (process to_source parse files do_test w) = Inl e" by blast
  from * show "disk (snd (process to_source parse files do_test w)) = disk w" by blast
qed

text \<open>
  A method without parameters, the method \<open>async def f(self, x, *, y=2)\<close>, and a run over
  a file that holds the method without parameters.
\<close>

theorem receiver_removed_witness:
  "gen_snippet example_to_source example_file (Stmt example_no_params) = Inl IndexError
   \<and> map_sum id fst (gen_snippet example_to_source example_file (Stmt example_method))
       = Inr example_stripped
   \<and> arguments.args (stmt.args example_stripped) = tl (arguments.args (stmt.args example_method))
   \<and> (\<exists>e. fst (process example_to_source (example_parse [example_no_params]) [example_file]
                  False example_world) = Inl e)
   \<and> disk (snd (process example_to_source (example_parse [example_no_params]) [example_file]
                  False example_world)) = disk example_world"
proof -
  note t = receiver_removed[of example_no_params example_to_source example_file
      example_stripped "snd (projr (gen_snippet example_to_source example_file (Stmt example_method)))"
      "[example_file]" "example_parse [example_no_params]" example_world
      "Module [ClassDef ''Runner'' [] [example_no_params] []]" False]
  have 1: "is_function (Stmt example_no_params) \<and> arguments.args (stmt.args example_no_params) = []"
    by (simp add: example_no_params_def no_args_def)
  have 3: "example_file \<in> set [example_file]
      \<and> parse_file (example_parse [example_no_params]) (disk example_world) (path example_file)
          = Inr (Module [ClassDef ''Runner'' [] [example_no_params] []])
      \<and> Stmt example_no_params \<in> set (get_public_methods (Module [ClassDef ''Runner'' [] [example_no_params] []]))
      \<and> arguments.args (stmt.args example_no_params) = []"
    by (simp add: example_parse_file example_public_methods)
       (simp add: example_no_params_def no_args_def)
  from t 1 3 example_gen_snippet[of example_to_source] show ?thesis
    by (simp add: example_stripped_def example_method_def)
qed



text \<open>
  C9, as stated, does not hold: the loop body changes the node it is given.  For the
  method \<open>async def f(self, x, *, y=2)\<close> the node that the loop body leaves differs from
  the node that was parsed.
\<close>

theorem tree_is_changed_counterexample:
  "map_sum id fst (gen_snippet example_to_source example_file (Stmt example_method))
     = Inr example_stripped
   \<and> example_stripped \<noteq> example_method"
  using example_gen_snippet[of example_to_source]
  by (simp add: example_stripped_def example_method_def)

text \<open>
  C9, amended.  The loop body changes a marked method node in place, in three fields
  only: the first positional parameter is deleted, the decorator list is emptied and the
  body is cut down to the docstring statement or to nothing.  The name, the kind
  (ordinary or asynchronous), the return annotation and the other parameter fields stay
  as parsed.
\<close>

theorem marked_method_changed_in_place:
  assumes "gen_snippet to_source file (Stmt m) = Inr (method, snippet)"
  shows "method =
     set_body (if get_docstring m = None then [] else take 1 (body m))
       (set_decorator_list []
          (set_args ((stmt.args m)\<lparr>args := tl (arguments.args (stmt.args m))\<rparr>) m))
     \<and> name method = name m \<and> returns method = returns m \<and> is_async method = is_async m
     \<and> stmt.args method = (stmt.args m)\<lparr>args := tl (arguments.args (stmt.args m))\<rparr>
     \<and> decorator_list method = []
     \<and> body method = (if get_docstring m = None then [] else take 1 (body m))"
  using gen_snippet_method_eq[OF assms] gen_snippet_method[OF assms] by simp

text \<open>The method \<open>async def f(self, x, *, y=2)\<close>.\<close>

theorem marked_method_changed_in_place_witness:
  "(\<exists>snippet. gen_snippet example_to_source example_file (Stmt example_method)
        = Inr (example_stripped, snippet))
   \<and> example_stripped =
     set_body [Expr (Constant (Str ''doc''))]
       (set_decorator_list []
          (set_args ((stmt.args example_method)\<lparr>args := [\<lparr>arg = ''x'', annotation = None\<rparr>]\<rparr>)
             example_method))"
proof -
  obtain snippet where
    g: "gen_snippet example_to_source example_file (Stmt example_method)
          = Inr (example_stripped, snippet)"
    using example_gen_snippet[of example_to_source]
    by (cases "gen_snippet example_to_source example_file (Stmt example_method)") auto
  from marked_method_changed_in_place[OF g] g show ?thesis
    by (simp add: example_method_def get_docstring_def self_arg_def)
qed

text \<open>
  C10.  On a function node the loop body succeeds exactly when the first entry of
  \<open>args.args\<close> is named \<open>self\<close>.  With another first name the assertion fails:
  \<open>gen_public_wrappers_source\<close> raises \<open>AssertionError\<close> for a file whose marked methods
  all have a positional parameter, and \<open>process\<close> returns an error and writes no file.
\<close>

theorem receiver_must_be_named_self:
  "(is_function (Stmt m) \<longrightarrow>
      (\<exists>method snippet. gen_snippet to_source file (Stmt m) = Inr (method, snippet))
        = (\<exists>a0 rest. arguments.args (stmt.args m) = a0 # rest \<and> arg a0 = ''self''))
   \<and> (is_function (Stmt m) \<and> arguments.args (stmt.args m) = a0 # rest \<and> arg a0 \<noteq> ''self'' \<longrightarrow>
        gen_snippet to_source file (Stmt m) = Inl AssertionError)
   \<and> (parse_file parse d (path file) = Inr source \<and> Stmt m \<in> set (get_public_methods source)
        \<and> arguments.args (stmt.args m) = a0 # rest \<and> arg a0 \<noteq> ''self''
        \<and> (\<forall>m'. Stmt m' \<in> set (get_public_methods source) \<longrightarrow>
               arguments.args (stmt.args m') \<noteq> []) \<longrightarrow>
        gen_public_wrappers_source to_source parse d file = Inl AssertionError)
   \<and> (file \<in> set files \<and> parse_file parse (disk w) (path file) = Inr source
        \<and> Stmt m \<in> set (get_public_methods source)
        \<and> arguments.args (stmt.args m) = a0 # rest \<and> arg a0 \<noteq> ''self'' \<longrightarrow>
        (\<exists>e. fst (process to_source parse files do_test w) = Inl e)
        \<and> disk (snd (process to_source parse files do_test w)) = disk w)"
proof (intro conjI impI)
  assume fn: "is_function (Stmt m)"
  show "(\<exists>method snippet. gen_snippet to_source file (Stmt m) = Inr (method, snippet))
        = (\<exists>a0 rest. arguments.args (stmt.args m) = a0 # rest \<and> arg a0 = ''self'')"
  proof
    assume "\<exists>method snippet. gen_snippet to_source file (Stmt m) = Inr (method, snippet)"
    then obtain m' s where "gen_snippet to_source file (Stmt m) = Inr (m', s)" by blast
    from gen_snippet_method(2)[OF this]
    show "\<exists>a0 rest. arguments.args (stmt.args m) = a0 # rest \<and> arg a0 = ''self''" by blast
  next
    assume "\<exists>a0 rest. arguments.args (stmt.args m) = a0 # rest \<and> arg a0 = ''self''"
    then show "\<exists>method snippet. gen_snippet to_source file (Stmt m) = Inr (method, snippet)"
      using gen_snippet_self[OF fn] by blast
  qed
next
  assume "is_function (Stmt m) \<and> arguments.args (stmt.args m) = a0 # rest \<and> arg a0 \<noteq> ''self''"
  then show "gen_snippet to_source file (Stmt m) = Inl AssertionError"
    by (simp add: gen_snippet_not_self)
next
  assume a: "parse_file parse d (path file) = Inr source \<and> Stmt m \<in> set (get_public_methods source)
        \<and> arguments.args (stmt.args m) = a0 # rest \<and> arg a0 \<noteq> ''self''
        \<and> (\<forall>m'. Stmt m' \<in> set (get_public_methods source) \<longrightarrow>
               arguments.args (stmt.args m') \<noteq> [])"
  then have "is_function (Stmt m)"
    by (auto simp: get_public_methods_def simp del: is_public.simps intro: is_public_function)
  with a have g: "gen_snippet to_source file (Stmt m) = Inl AssertionError"
    by (simp add: gen_snippet_not_self)
  have "list_all is_public (get_public_methods source)"
    by (simp add: get_public_methods_def list_all_iff del: is_public.simps)
  with a g have "gen_snippets to_source file (get_public_methods source) = Inl AssertionError"
    by (intro gen_snippets_AssertionError[where node = "Stmt m" and e = AssertionError]) simp_all
  with a show "gen_public_wrappers_source to_source parse d file = Inl AssertionError"
    by (simp add: gen_public_wrappers_source_parsed)
next
  assume a: "file \<in> set files \<and> parse_file parse (disk w) (path file) = Inr source
        \<and> Stmt m \<in> set (get_public_methods source)
        \<and> arguments.args (stmt.args m) = a0 # rest \<and> arg a0 \<noteq> ''self''"
  then have "is_function (Stmt m)"
    by (auto simp: get_public_methods_def simp del: is_public.simps intro: is_public_function)
  with a have "gen_snippet to_source file (Stmt m) = Inl AssertionError"
    by (simp add: gen_snippet_not_self)
  with a have *: "(\<exists>e. fst (process to_source parse files do_test w) = Inl e)
        \<and> disk (snd (process to_source parse files do_test w)) = disk w"
    by (intro process_aborts[where node = "Stmt m" and e = AssertionError and source = source])
       simp_all
  from * show "\<exists>e. fst (process to_source parse files do_test w) = Inl e" by blast
  from * show "disk (snd (process to_source parse files do_test w)) = disk w" by blast
qed

text \<open>
  The method \<open>async def f(self, x, *, y=2)\<close>, and a marked method \<open>def h(this)\<close> alone
  and in a file.
\<close>

theorem receiver_must_be_named_self_witness:
  "(\<exists>method snippet. gen_snippet example_to_source example_file (Stmt example_method)
        = Inr (method, snippet))
   \<and> gen_snippet example_to_source example_file (Stmt example_not_self) = Inl AssertionError
   \<and> gen_public_wrappers_source example_to_source (example_parse [example_not_self])
        (disk example_world) example_file = Inl AssertionError
   \<and> (\<exists>e. fst (process example_to_source (example_parse [example_not_self]) [example_file]
                  True example_world) = Inl e)
   \<and> disk (snd (process example_to_source (example_parse [example_not_self]) [example_file]
                  True example_world)) = disk example_world"
proof -
  let ?this_arg = "\<lparr>arg = ''this'', annotation = None\<rparr>"
  let ?source = "Module [ClassDef ''Runner'' [] [example_not_self] []]"
  note t1 = receiver_must_be_named_self[of example_method example_to_source example_file]
  note t2 = receiver_must_be_named_self[of example_not_self example_to_source example_file
      ?this_arg "[]" "example_parse [example_not_self]" "disk example_world" ?source
      "[example_file]" example_world True]
  have 1: "is_function (Stmt example_method)"
    "\<exists>a0 rest. arguments.args (stmt.args example_method) = a0 # rest \<and> arg a0 = ''self''"
    by (simp_all add: example_method_def self_arg_def)
  have 2: "is_function (Stmt example_not_self)"
    "arguments.args (stmt.args example_not_self) = ?this_arg # []"
    "arg ?this_arg \<noteq> ''self''"
    by (simp_all add: example_not_self_def no_args_def)
  have 3: "parse_file (example_parse [example_not_self]) (disk example_world) (path example_file)
      = Inr ?source"
    "Stmt example_not_self \<in> set (get_public_methods ?source)"
    "\<forall>m'. Stmt m' \<in> set (get_public_methods ?source) \<longrightarrow> arguments.args (stmt.args m') \<noteq> []"
    "example_file \<in> set [example_file]"
    by (simp_all add: example_parse_file example_public_methods 2)
  from t1 1 have "\<exists>method snippet. gen_snippet example_to_source example_file
      (Stmt example_method) = Inr (method, snippet)" by blast
  moreover from t2 2 3 have
    "gen_snippet example_to_source example_file (Stmt example_not_self) = Inl AssertionError"
    "gen_public_wrappers_source example_to_source (example_parse [example_not_self])
        (disk example_world) example_file = Inl AssertionError"
    "\<exists>e. fst (process example_to_source (example_parse [example_not_self]) [example_file]
                  True example_world) = Inl e"
    "disk (snd (process example_to_source (example_parse [example_not_self]) [example_file]
                  True example_world)) = disk example_world"
    by blast+
  ultimately show ?thesis by blast
qed





text \<open>
  C5, as stated, does not hold: \<open>ast.walk\<close> is a breadth-first traversal.  In a tree with
  a marked method \<open>f\<close> in a class and a marked function \<open>g\<close> after the class, the scanner
  yields \<open>g\<close> before \<open>f\<close>, while \<open>f\<close> comes first in the depth-first order and in the
  source text.
\<close>

theorem depth_first_order_counterexample:
  "get_public_methods example_tree = [Stmt example_g, Stmt example_f]
   \<and> filter is_public (depth_first example_tree) = [Stmt example_f, Stmt example_g]
   \<and> get_public_methods example_tree \<noteq> filter is_public (depth_first example_tree)"
  using example_tree_walk example_tree_depth_first
  by (simp add: example_f_def example_g_def)

text \<open>
  C5, amended.  The scanner yields the marked function nodes level by level: those at
  nesting depth \<open>d\<close>, in their depth-first order among themselves, before those at depth
  \<open>d + 1\<close>.  When all marked function nodes of the tree sit at one depth, this is their
  depth-first order.
\<close>

theorem public_methods_in_level_order:
  "get_public_methods tree =
     concat (map (\<lambda>d. map snd (filter (\<lambda>p. fst p = d \<and> is_public (snd p))
                                    (depth_first_at 0 tree)))
                 [0..<ast_nodes tree])
   \<and> ((\<forall>p\<in>set (depth_first_at 0 tree). is_public (snd p) \<longrightarrow> fst p = d0) \<longrightarrow>
        get_public_methods tree = filter is_public (depth_first tree))"
  using get_public_methods_levels[of tree] get_public_methods_one_depth[of tree d0]
  by blast

text \<open>A class with two marked methods: both at depth 2.\<close>

theorem public_methods_in_level_order_witness:
  "list_all (\<lambda>p. is_public (snd p) \<longrightarrow> fst p = 2) (depth_first_at 0 example_class_tree)
   \<and> get_public_methods example_class_tree = filter is_public (depth_first example_class_tree)
   \<and> get_public_methods example_class_tree = [Stmt example_f, Stmt example_g]"
proof -
  have h: "list_all (\<lambda>p. is_public (snd p) \<longrightarrow> fst p = 2) (depth_first_at 0 example_class_tree)"
    by (simp add: depth_first_at.simps example_class_tree_def example_f_def example_g_def
          no_args_def self_arg_def opt_nodes_def)
  then have "\<forall>p\<in>set (depth_first_at 0 example_class_tree). is_public (snd p) \<longrightarrow> fst p = 2"
    by (simp only: list_all_iff)
  with public_methods_in_level_order[of example_class_tree 2]
  have "get_public_methods example_class_tree = filter is_public (depth_first example_class_tree)"
    by blast
  moreover have "get_public_methods example_class_tree = [Stmt example_f, Stmt example_g]"
    by (simp add: get_public_methods_def walk_def example_class_tree_def example_f_def
          example_g_def no_args_def self_arg_def opt_nodes_def)
  ultimately show ?thesis using h by blast
qed

text \<open>
  C8.  The scanner yields a node exactly when the node occurs in the tree, at some depth,
  and is a \<open>FunctionDef\<close> or an \<open>AsyncFunctionDef\<close> with the name \<open>_public\<close> among its
  decorators; and the loop of \<open>gen_public_wrappers_source\<close> generates snippets for the
  yielded nodes and for no others.
\<close>

theorem marked_functions_selected:
  "(node \<in> set (get_public_methods tree)) =
     ((\<exists>d. node \<in> set (level d tree))
      \<and> (\<exists>n a b d r. (node = Stmt (FunctionDef n a b d r)
                        \<or> node = Stmt (AsyncFunctionDef n a b d r))
            \<and> Name ''_public'' \<in> set d))
   \<and> gen_loop to_source file [tree] = gen_snippets to_source file (get_public_methods tree)"
proof
  have "(node \<in> set (get_public_methods tree))
      = (node \<in> set (walk tree) \<and> is_public node)"
    by (simp add: get_public_methods_def del: is_public.simps)
  also have "\<dots> = ((\<exists>d. node \<in> set (level d tree)) \<and> is_public node)"
    by (simp add: set_walk del: is_public.simps)
  finally show "(node \<in> set (get_public_methods tree)) =
     ((\<exists>d. node \<in> set (level d tree))
      \<and> (\<exists>n a b d r. (node = Stmt (FunctionDef n a b d r)
                        \<or> node = Stmt (AsyncFunctionDef n a b d r))
            \<and> Name ''_public'' \<in> set d))"
    by (simp only: is_public_iff)
  show "gen_loop to_source file [tree] = gen_snippets to_source file (get_public_methods tree)"
    by (rule gen_loop_walk)
qed

text \<open>
  A marked function four levels below the root is yielded; the functions decorated with
  \<open>_public_api\<close> and with the call \<open>_public()\<close> are not.
\<close>

theorem marked_functions_selected_witness:
  "get_public_methods example_nested_tree = [Stmt example_g]
   \<and> (\<exists>d. Stmt example_g \<in> set (level d example_nested_tree))"
proof -
  have g: "get_public_methods example_nested_tree = [Stmt example_g]"
    by (simp add: get_public_methods_def walk_def example_nested_tree_def example_g_def
          no_args_def self_arg_def opt_nodes_def)
  from marked_functions_selected[of "Stmt example_g" example_nested_tree] g
  have "\<exists>d. Stmt example_g \<in> set (level d example_nested_tree)" by simp
  with g show ?thesis by (intro conjI)
qed

section \<open>Further properties of the driver\<close>

text \<open>
  X1.  In regenerate mode, when every file has been generated, \<open>process\<close> returns
  normally, every output path holds its generated text afterwards, and every other path
  of the disk is as it was.
\<close>

theorem regenerate_mode_writes_every_file:
  assumes "fst (scan_files to_source parse files [] w) = Inr new_files"
  shows "fst (process to_source parse files False w) = Inr ()
     \<and> (\<forall>(p, s)\<in>set new_files. disk (snd (process to_source parse files False w)) p = Some s)
     \<and> (\<forall>p. p \<notin> output_path ` set files \<longrightarrow>
            disk (snd (process to_source parse files False w)) p = disk w p)"
proof -
  have dist: "distinct (map fst new_files)"
    using scan_files_distinct[of "[]" to_source parse files w new_files] assms by simp
  have keys: "fst ` set new_files = output_path ` set files"
    using scan_files_paths[OF assms] by simp
  note r = process_write_result[OF assms]
  have "\<forall>(p, s)\<in>set new_files. (disk w ++ map_of new_files) p = Some s"
    using map_of_present[OF dist] by auto
  moreover have "\<forall>p. p \<notin> output_path ` set files \<longrightarrow> (disk w ++ map_of new_files) p = disk w p"
    using map_of_absent[of _ new_files] keys by simp
  ultimately show ?thesis using r by simp
qed

text \<open>A run over one file.\<close>

theorem regenerate_mode_writes_every_file_witness:
  "fst (process example_to_source (example_parse []) [example_file] False example_world) = Inr ()
   \<and> disk (snd (process example_to_source (example_parse []) [example_file] False example_world))
        ''trio/_core/_generated_run.py'' = Some example_output"
proof -
  have s: "fst (scan_files example_to_source (example_parse []) [example_file] [] example_world)
      = Inr [(''trio/_core/_generated_run.py'', example_output)]"
    by (rule example_scan[where t = "''class Runner: ...''"]) (simp add: example_world_def)
  from regenerate_mode_writes_every_file[OF s] show ?thesis by simp
qed

text \<open>
  X2.  A run in verify mode that follows a run in regenerate mode over the same files
  passes, provided that no output path is the path of one of the input files.
\<close>

theorem verify_after_regenerate_passes:
  assumes "fst (scan_files to_source parse files [] w) = Inr new_files"
    and "\<forall>f\<in>set files. path f \<notin> output_path ` set files"
  shows "fst (process to_source parse files True
                (snd (process to_source parse files False w))) = Inr ()"
proof -
  let ?w1 = "snd (process to_source parse files False w)"
  note r = process_write_result[OF assms(1)]
  have keys: "fst ` set new_files = output_path ` set files"
    using scan_files_paths[OF assms(1)] by simp
  have dist: "distinct (map fst new_files)"
    using scan_files_distinct[of "[]" to_source parse files w new_files] assms(1) by simp
  have "\<forall>f\<in>set files. disk ?w1 (path f) = disk w (path f)"
    using assms(2) keys map_of_absent[of _ new_files "disk w"] by (simp add: r(2))
  from scan_files_agree[OF this] assms(1)
  have s1: "fst (scan_files to_source parse files [] ?w1) = Inr new_files" by simp
  have "matches_disk_files new_files (disk ?w1)"
    using map_of_present[OF dist, of _ _ "disk w"] by (auto simp: matches_disk_files_iff r(2))
  with process_test_result[OF s1] show ?thesis by simp
qed

text \<open>A run over one file.\<close>

theorem verify_after_regenerate_passes_witness:
  "fst (process example_to_source (example_parse []) [example_file] True
         (snd (process example_to_source (example_parse []) [example_file] False example_world)))
     = Inr ()"
proof -
  have s: "fst (scan_files example_to_source (example_parse []) [example_file] [] example_world)
      = Inr [(''trio/_core/_generated_run.py'', example_output)]"
    by (rule example_scan[where t = "''class Runner: ...''"]) (simp add: example_world_def)
  have "\<forall>f\<in>set [example_file]. path f \<notin> output_path ` set [example_file]"
    by (simp add: example_output_path) (simp add: example_file_def)
  from verify_after_regenerate_passes[OF s this] show ?thesis .
qed

end
